theory Spec2Isabelle
  imports Main "HOL-Library.Code_Target_Nat"
begin

section \<open>JavaScript values and array primitives\<close>

text \<open>
  A string is the sequence of its UTF-16 code units, each a natural number; \<open>js\<close> writes
  one from its ASCII characters.
\<close>

type_synonym jstring = "nat list"

definition js :: "string \<Rightarrow> jstring" where
  "js s = map of_char s"

text \<open>
  Request bodies and query parameters arrive as arbitrary JSON-like values. Numbers are
  split by the only two tests the code applies to them (\<open>Number.isInteger\<close> and
  \<open>>= 0\<close>): \<open>JInt\<close> is a number with an integer value, \<open>JNonInt\<close> any other number
  (a fraction, \<open>NaN\<close>, an infinity).
\<close>

datatype json =
    JUndefined
  | JNull
  | JBool bool
  | JInt int
  | JNonInt
  | JStr jstring
  | JArr "json list"
  | JObj "(jstring \<times> json) list"

text \<open>\<open>Array.prototype.indexOf\<close>: the first index holding the value, or \<open>-1\<close>.\<close>

fun indexOf :: "'a list \<Rightarrow> 'a \<Rightarrow> int" where
  "indexOf [] v = -1"
| "indexOf (x # xs) v =
     (if x = v then 0 else (let r = indexOf xs v in if r = -1 then -1 else r + 1))"

text \<open>\<open>arr[i]\<close>: \<open>undefined\<close> (here \<open>None\<close>) outside \<open>0 .. length - 1\<close>.\<close>

definition js_index :: "'a list \<Rightarrow> int \<Rightarrow> 'a option" where
  "js_index xs i = (if 0 \<le> i \<and> i < int (length xs) then Some (xs ! nat i) else None)"

text \<open>Truthiness of a value that is either \<open>undefined\<close> or a string.\<close>

fun truthy :: "jstring option \<Rightarrow> bool" where
  "truthy None = False"
| "truthy (Some s) = (s \<noteq> [])"

text \<open>\<open>Set.prototype.add\<close> on a set kept in insertion order.\<close>

definition set_add :: "'a list \<Rightarrow> 'a \<Rightarrow> 'a list" where
  "set_add s x = (if x \<in> set s then s else s @ [x])"

text \<open>\<open>Array.prototype.findIndex\<close>: the first index satisfying the test, or \<open>-1\<close>.\<close>

fun findIndex :: "('a \<Rightarrow> bool) \<Rightarrow> 'a list \<Rightarrow> int" where
  "findIndex P [] = -1"
| "findIndex P (x # xs) =
     (if P x then 0 else (let r = findIndex P xs in if r = -1 then -1 else r + 1))"

text \<open>The nullish coalescing operator \<open>a ?? b\<close>.\<close>

definition coalesce :: "json \<Rightarrow> json \<Rightarrow> json" where
  "coalesce a b = (if a = JUndefined \<or> a = JNull then b else a)"

subsection \<open>Strings\<close>

text \<open>
  The code units \<open>String.prototype.trim\<close> strips: the white space and line terminators
  of ECMAScript (TAB, LF, VT, FF, CR, SP, NBSP, U+1680, U+2000 to U+200A, U+2028, U+2029,
  U+202F, U+205F, U+3000 and U+FEFF).
\<close>

definition is_space :: "nat \<Rightarrow> bool" where
  "is_space c =
     (c \<in> set [0x09, 0x0A, 0x0B, 0x0C, 0x0D, 0x20, 0xA0, 0x1680, 0x2028, 0x2029, 0x202F,
                0x205F, 0x3000, 0xFEFF]
      \<or> (0x2000 \<le> c \<and> c \<le> 0x200A))"

text \<open>\<open>String.prototype.trim\<close>.\<close>

definition trim :: "jstring \<Rightarrow> jstring" where
  "trim s = rev (dropWhile is_space (rev (dropWhile is_space s)))"

definition lower_char :: "nat \<Rightarrow> nat" where
  "lower_char c = (if 65 \<le> c \<and> c \<le> 90 then c + 32 else c)"

text \<open>
  \<open>String.prototype.toLowerCase\<close>, exact on ASCII code units. The code only compares
  the result with the words of the two enums: a string with a code unit outside ASCII
  is mapped by the source to a string that has a code unit outside ASCII or the letter
  k (from the Kelvin sign), and so to none of those words, as it is here.
\<close>

definition toLowerCase :: "jstring \<Rightarrow> jstring" where
  "toLowerCase s = map lower_char s"

definition is_digit :: "nat \<Rightarrow> bool" where
  "is_digit c = (48 \<le> c \<and> c \<le> 57)"

text \<open>The test \<open>/^\d+$/\<close>: one or more decimal digits and nothing else.\<close>

definition all_digits :: "jstring \<Rightarrow> bool" where
  "all_digits s = (s \<noteq> [] \<and> list_all is_digit s)"

text \<open>The mathematical value of a string of decimal digits.\<close>

definition decimal :: "jstring \<Rightarrow> nat" where
  "decimal s = foldl (\<lambda>acc c. 10 * acc + (c - 48)) 0 s"

text \<open>
  A number that is a non-negative integer or \<open>Infinity\<close> is a natural number here: a
  finite double is its value, and \<open>Infinity\<close> is \<open>2 ^ 1024\<close>, which exceeds every
  finite double.
\<close>

definition INFINITY :: nat where
  "INFINITY = 2 ^ 1024"

fun bit_length :: "nat \<Rightarrow> nat" where
  "bit_length n = (if n = 0 then 0 else Suc (bit_length (n div 2)))"

declare bit_length.simps [simp del]

text \<open>
  The double nearest to a natural number, ties to the even significand of 53 bits;
  \<open>Infinity\<close> from \<open>2 ^ 1024 - 2 ^ 970\<close> on.
\<close>

definition to_double :: "nat \<Rightarrow> nat" where
  "to_double n =
     (if n < 2 ^ 53 then n
      else
        let e = bit_length n - 53;
            q = n div 2 ^ e;
            r = n mod 2 ^ e;
            h = 2 ^ (e - 1);
            m = (if h < r \<or> (r = h \<and> odd q) then q + 1 else q);
            v = m * 2 ^ e
        in if 2 ^ 1024 \<le> v then INFINITY else v)"

text \<open>\<open>Number(text)\<close> on a string of decimal digits: the double nearest to its value.\<close>

definition Number_of :: "jstring \<Rightarrow> nat" where
  "Number_of s = to_double (decimal s)"

text \<open>\<open>String(n)\<close> for a non-negative integer: its decimal digits.\<close>

fun String_of :: "nat \<Rightarrow> jstring" where
  "String_of n =
     (if n < 10 then [48 + n]
      else String_of (n div 10) @ [48 + n mod 10])"

declare String_of.simps [simp del]

text \<open>\<open>ids.join(",")\<close>.\<close>

fun join_ids :: "nat list \<Rightarrow> jstring" where
  "join_ids [] = []"
| "join_ids [x] = String_of x"
| "join_ids (x # y # ys) = String_of x @ (js '','') @ join_ids (y # ys)"

section \<open>Level scale and knowledge units\<close>

definition LEVEL_ORDER :: "jstring list" where
  "LEVEL_ORDER = [(js ''album''), (js ''single''), (js ''segment''), (js ''phrase''), (js ''timbre'')]"

definition LEVELS :: "jstring list" where
  "LEVELS = [(js ''album''), (js ''single''), (js ''segment''), (js ''phrase''), (js ''timbre'')]"

definition CATEGORY :: "jstring list" where
  "CATEGORY = [(js ''form''), (js ''material'')]"

record node =
  node_id :: nat
  node_content :: jstring
  node_level :: jstring
  node_category :: jstring

record recipe =
  recipe_id :: nat
  knowledgePoints :: "nat list"
  procedure :: jstring
  recipe_level :: jstring
  description :: jstring

section \<open>Normalising input\<close>

definition toSafeString :: "json \<Rightarrow> jstring" where
  "toSafeString v = (case v of JStr s \<Rightarrow> trim s | _ \<Rightarrow> [])"

definition toSafeLower :: "json \<Rightarrow> jstring" where
  "toSafeLower v = toLowerCase (toSafeString v)"

definition normalizeLevel :: "json \<Rightarrow> jstring" where
  "normalizeLevel v = (let level = toSafeLower v in if level \<in> set LEVELS then level else [])"

definition normalizeCategory :: "json \<Rightarrow> jstring" where
  "normalizeCategory v =
     (let category = toSafeLower v in if category \<in> set CATEGORY then category else [])"

text \<open>\<open>null\<close> is \<open>None\<close>.\<close>

definition normalizeNumericId :: "json \<Rightarrow> nat option" where
  "normalizeNumericId v =
     (case v of
        JInt i \<Rightarrow>
          if 0 \<le> i then Some (nat i)
          else (let text = toSafeString v in
                if all_digits text then Some (Number_of text) else None)
      | _ \<Rightarrow>
          (let text = toSafeString v in
           if all_digits text then Some (Number_of text) else None))"

text \<open>
  \<open>Math.max(...ids) + 1\<close>. The addition is exact here; in the source it is exact while
  the largest id is below \<open>2 ^ 53\<close>.
\<close>

definition nextId :: "nat list \<Rightarrow> nat" where
  "nextId ids = (if ids = [] then 0 else Max (set ids) + 1)"

definition parseParamId :: "json \<Rightarrow> nat option" where
  "parseParamId v = (let parsed = normalizeNumericId v in
     case parsed of None \<Rightarrow> None | Some p \<Rightarrow> Some p)"

record node_body =
  nb_content :: json
  nb_level :: json
  nb_category :: json

record node_fields =
  nf_content :: jstring
  nf_level :: jstring
  nf_category :: jstring

definition normalizeNode :: "node_body \<Rightarrow> node_fields" where
  "normalizeNode input =
     \<lparr>nf_content = toSafeString (nb_content input),
      nf_level = normalizeLevel (nb_level input),
      nf_category = normalizeCategory (nb_category input)\<rparr>"

text \<open>A non-array gives no ids; tokens that are not ids are filtered out.\<close>

definition normalizeKnowledgePoints :: "json \<Rightarrow> nat list" where
  "normalizeKnowledgePoints v =
     (case v of
        JArr items \<Rightarrow> List.map_filter (\<lambda>item. normalizeNumericId item) items
      | _ \<Rightarrow> [])"

definition areValidKnowledgeIds :: "nat list \<Rightarrow> node list \<Rightarrow> bool" where
  "areValidKnowledgeIds ids ns = list_all (\<lambda>i. i \<in> set (map node_id ns)) ids"

section \<open>The single-hop rule, twice\<close>

definition getUsableLevelsForNode :: "node \<Rightarrow> jstring list" where
  "getUsableLevelsForNode n =
     (let levelIndex = indexOf LEVEL_ORDER (node_level n) in
      if levelIndex = -1 then []
      else
        let usableLevels = [node_level n];
            usableLevels =
              (if node_category n = js ''material'' then
                 (let lowerLevel = js_index LEVEL_ORDER (levelIndex + 1) in
                  if truthy lowerLevel then set_add usableLevels (the lowerLevel)
                  else usableLevels)
               else usableLevels);
            usableLevels =
              (if node_category n = js ''form'' then
                 (let higherLevel = js_index LEVEL_ORDER (levelIndex - 1) in
                  if truthy higherLevel then set_add usableLevels (the higherLevel)
                  else usableLevels)
               else usableLevels)
        in usableLevels)"

definition getRelativeCategory :: "node \<Rightarrow> jstring \<Rightarrow> jstring" where
  "getRelativeCategory n targetLevel =
     (if targetLevel = node_level n then node_category n
      else
        let levelIndex = indexOf LEVEL_ORDER (node_level n) in
        if levelIndex = -1 then []
        else if node_category n = js ''material'' then
          (let lowerLevel = js_index LEVEL_ORDER (levelIndex + 1) in
           if Some targetLevel = lowerLevel then (js ''form'') else [])
        else if node_category n = js ''form'' then
          (let higherLevel = js_index LEVEL_ORDER (levelIndex - 1) in
           if Some targetLevel = higherLevel then (js ''material'') else [])
        else [])"

subsection \<open>The rule as the specification words it\<close>

text \<open>
  The level scale of the specification: the rank of a level (\<open>0\<close> the coarsest), its
  parent (next coarser rank) and its child (next finer rank), and the four-step
  resolver, with \<open>None\<close> for Unusable.
\<close>

fun rank :: "jstring \<Rightarrow> nat option" where
  "rank l =
     (if l = js ''album'' then Some 0
      else if l = js ''single'' then Some 1
      else if l = js ''segment'' then Some 2
      else if l = js ''phrase'' then Some 3
      else if l = js ''timbre'' then Some 4
      else None)"

definition parent :: "jstring \<Rightarrow> jstring option" where
  "parent l =
     (if l = js ''single'' then Some (js ''album'')
      else if l = js ''segment'' then Some (js ''single'')
      else if l = js ''phrase'' then Some (js ''segment'')
      else if l = js ''timbre'' then Some (js ''phrase'')
      else None)"

definition child :: "jstring \<Rightarrow> jstring option" where
  "child l =
     (if l = js ''album'' then Some (js ''single'')
      else if l = js ''single'' then Some (js ''segment'')
      else if l = js ''segment'' then Some (js ''phrase'')
      else if l = js ''phrase'' then Some (js ''timbre'')
      else None)"

definition resolve_spec :: "jstring \<Rightarrow> jstring \<Rightarrow> jstring \<Rightarrow> jstring option" where
  "resolve_spec level category targetLevel =
     (if targetLevel = level then Some category
      else if Some targetLevel = parent level then
        (if category = js ''form'' then Some (js ''material'') else None)
      else if Some targetLevel = child level then
        (if category = js ''material'' then Some (js ''form'') else None)
      else None)"

subsection \<open>The enums as the specification words them\<close>

text \<open>
  A string is a word in another letter case when it differs from the word only by
  capital ASCII letters where the word has the small ones. A value belongs to an enum
  when it is a string made of one of the enum's words in any letter case, with white
  space before and after it.
\<close>

definition same_ignoring_case :: "jstring \<Rightarrow> jstring \<Rightarrow> bool" where
  "same_ignoring_case s w =
     list_all2 (\<lambda>c d. c = d \<or> (65 \<le> c \<and> c \<le> 90 \<and> d = c + 32)) s w"

definition enum_value :: "jstring list \<Rightarrow> json \<Rightarrow> bool" where
  "enum_value enum v =
     (\<exists>a s b w. v = JStr (a @ s @ b) \<and> list_all is_space a \<and> list_all is_space b
        \<and> w \<in> set enum \<and> same_ignoring_case s w)"

section \<open>Validation of a composition's references\<close>

text \<open>
  \<open>new Map(nodes.map((node) => [node.id, node]))\<close>: a later entry with the same key
  replaces an earlier one, so the lookup finds the last node with the id.
\<close>

definition nodeMap_get :: "node list \<Rightarrow> nat \<Rightarrow> node option" where
  "nodeMap_get ns i = map_of (rev (map (\<lambda>n. (node_id n, n)) ns)) i"

definition findUnavailableKnowledgeIds :: "nat list \<Rightarrow> node list \<Rightarrow> jstring \<Rightarrow> nat list" where
  "findUnavailableKnowledgeIds ids ns recipeLevel =
     filter (\<lambda>i. case nodeMap_get ns i of
                   None \<Rightarrow> False
                 | Some n \<Rightarrow> recipeLevel \<notin> set (getUsableLevelsForNode n)) ids"

record recipe_body =
  rb_knowledgePoints :: json
  rb_procedure :: json
  rb_level :: json
  rb_description :: json

record recipe_fields =
  rf_knowledgePoints :: "nat list"
  rf_procedure :: jstring
  rf_level :: jstring
  rf_description :: jstring

definition normalizeRecipe :: "recipe_body \<Rightarrow> recipe_fields" where
  "normalizeRecipe input =
     \<lparr>rf_knowledgePoints = normalizeKnowledgePoints (rb_knowledgePoints input),
      rf_procedure = toSafeString (rb_procedure input),
      rf_level = normalizeLevel (rb_level input),
      rf_description = toSafeString (rb_description input)\<rparr>"

section \<open>The data file\<close>

text \<open>
  The data file is either absent or holds what \<open>writeStore\<close> emits: a list of nodes and
  a list of recipes, with numeric ids and string fields. The field values themselves are
  unconstrained, so \<open>readStore\<close> still has to normalise, drop and renumber. The
  conversions \<open>readStore\<close> keeps for older file shapes (non-numeric ids, the \<open>music\<close>
  list) are never produced by \<open>writeStore\<close> and are not part of this model.
\<close>

datatype datafile = Absent | Content "node list" "recipe list"

record store =
  nodes :: "node list"
  recipes :: "recipe list"

record prepared_node =
  pn_existingNumericId :: "nat option"
  pn_content :: jstring
  pn_level :: jstring
  pn_category :: jstring

record prepared_recipe =
  pr_existingNumericId :: "nat option"
  pr_knowledgePoints :: "nat list"
  pr_procedure :: jstring
  pr_level :: jstring
  pr_description :: jstring

definition json_of_node :: "node \<Rightarrow> node_body" where
  "json_of_node n =
     \<lparr>nb_content = JStr (node_content n), nb_level = JStr (node_level n),
      nb_category = JStr (node_category n)\<rparr>"

definition json_of_ids :: "nat list \<Rightarrow> json" where
  "json_of_ids ids = JArr (map (\<lambda>i. JInt (int i)) ids)"

definition json_of_recipe :: "recipe \<Rightarrow> recipe_body" where
  "json_of_recipe r =
     \<lparr>rb_knowledgePoints = json_of_ids (knowledgePoints r),
      rb_procedure = JStr (procedure r), rb_level = JStr (recipe_level r),
      rb_description = JStr (description r)\<rparr>"

definition prepareNode :: "node \<Rightarrow> prepared_node option" where
  "prepareNode n =
     (let normalized = normalizeNode (json_of_node n);
          c = normalizeCategory (JStr (node_category n));
          fallbackCategory = (if c \<noteq> [] then c else (js ''form''))
      in if nf_content normalized = [] \<or> nf_level normalized = [] then None
         else Some \<lparr>pn_existingNumericId = normalizeNumericId (JInt (int (node_id n))),
                     pn_content = nf_content normalized,
                     pn_level = nf_level normalized,
                     pn_category = (if nf_category normalized \<noteq> [] then nf_category normalized
                                    else fallbackCategory)\<rparr>)"

text \<open>\<open>id = 0; while (used.has(id)) id += 1\<close>, started at \<open>i\<close>.\<close>

function first_free :: "nat list \<Rightarrow> nat \<Rightarrow> nat" where
  "first_free used i = (if i \<in> set used then first_free used (Suc i) else i)"
  by pat_completeness auto
termination
proof (relation "measure (\<lambda>(used, i). Suc (Max (set used)) - i)")
  show "wf (measure (\<lambda>(used, i). Suc (Max (set used)) - i))" by simp
next
  fix used :: "nat list" and i :: nat
  assume "i \<in> set used"
  then have "i \<le> Max (set used)" by simp
  then show "((used, Suc i), (used, i)) \<in> measure (\<lambda>(used, i). Suc (Max (set used)) - i)"
    by simp
qed

declare first_free.simps [simp del]

definition pick_id :: "nat option \<Rightarrow> nat list \<Rightarrow> nat" where
  "pick_id existing used =
     (case existing of
        None \<Rightarrow> first_free used 0
      | Some i \<Rightarrow> if i \<in> set used then first_free used 0 else i)"

definition node_of :: "nat \<Rightarrow> prepared_node \<Rightarrow> node" where
  "node_of i p =
     \<lparr>node_id = i, node_content = pn_content p, node_level = pn_level p,
      node_category = pn_category p\<rparr>"

fun assignNodeIds :: "nat list \<Rightarrow> prepared_node list \<Rightarrow> node list" where
  "assignNodeIds used [] = []"
| "assignNodeIds used (p # ps) =
     (let i = pick_id (pn_existingNumericId p) used in
      node_of i p # assignNodeIds (i # used) ps)"

text \<open>
  A stored knowledge point is first passed through \<open>normalizeNumericId\<close>; only a value it
  rejects would be looked up in the map from old id strings, and a numeric id is never
  rejected, so that lookup does not appear here.
\<close>

definition prepareRecipe :: "node list \<Rightarrow> recipe \<Rightarrow> prepared_recipe option" where
  "prepareRecipe ns r =
     (let normalized = normalizeRecipe (json_of_recipe r);
          convertedKnowledgePoints =
            List.map_filter (\<lambda>v. normalizeNumericId v)
              (map (\<lambda>i. JInt (int i)) (knowledgePoints r))
      in if rf_level normalized = [] \<or> rf_description normalized = []
            \<or> rf_procedure normalized = [] \<or> convertedKnowledgePoints = [] then None
         else if \<not> areValidKnowledgeIds convertedKnowledgePoints ns then None
         else Some \<lparr>pr_existingNumericId = normalizeNumericId (JInt (int (recipe_id r))),
                     pr_knowledgePoints = convertedKnowledgePoints,
                     pr_procedure = rf_procedure normalized,
                     pr_level = rf_level normalized,
                     pr_description = rf_description normalized\<rparr>)"

definition recipe_of :: "nat \<Rightarrow> prepared_recipe \<Rightarrow> recipe" where
  "recipe_of i p =
     \<lparr>recipe_id = i, knowledgePoints = pr_knowledgePoints p, procedure = pr_procedure p,
      recipe_level = pr_level p, description = pr_description p\<rparr>"

fun assignRecipeIds :: "nat list \<Rightarrow> prepared_recipe list \<Rightarrow> recipe list" where
  "assignRecipeIds used [] = []"
| "assignRecipeIds used (p # ps) =
     (let i = pick_id (pr_existingNumericId p) used in
      recipe_of i p # assignRecipeIds (i # used) ps)"

definition parseStore :: "node list \<Rightarrow> recipe list \<Rightarrow> store" where
  "parseStore rawNodes rawRecipes =
     (let preparedNodes = List.map_filter prepareNode rawNodes;
          ns = assignNodeIds [] preparedNodes;
          preparedRecipes = List.map_filter (prepareRecipe ns) rawRecipes;
          rs = assignRecipeIds [] preparedRecipes
      in \<lparr>nodes = ns, recipes = rs\<rparr>)"

definition writeStore :: "store \<Rightarrow> datafile" where
  "writeStore st = Content (nodes st) (recipes st)"

text \<open>Reading an absent file creates it empty; the file after the read is returned too.\<close>

definition readStore :: "datafile \<Rightarrow> datafile \<times> store" where
  "readStore f =
     (case f of
        Content rawNodes rawRecipes \<Rightarrow> (f, parseStore rawNodes rawRecipes)
      | Absent \<Rightarrow> (writeStore \<lparr>nodes = [], recipes = []\<rparr>, \<lparr>nodes = [], recipes = []\<rparr>))"

definition readNodeList :: "datafile \<Rightarrow> datafile \<times> node list" where
  "readNodeList f = (let (f', st) = readStore f in (f', nodes st))"

definition writeNodeList :: "datafile \<Rightarrow> node list \<Rightarrow> datafile" where
  "writeNodeList f ns = (let (f', st) = readStore f in writeStore (st\<lparr>nodes := ns\<rparr>))"

definition readRecipeList :: "datafile \<Rightarrow> datafile \<times> recipe list" where
  "readRecipeList f = (let (f', st) = readStore f in (f', recipes st))"

definition writeRecipeList :: "datafile \<Rightarrow> recipe list \<Rightarrow> datafile" where
  "writeRecipeList f rs = (let (f', st) = readStore f in writeStore (st\<lparr>recipes := rs\<rparr>))"

section \<open>Request handlers\<close>

text \<open>
  A handler takes the data file and the request and returns the data file after the
  request and the response. The route parameter \<open>:id\<close> is a string; a request body is
  an object whose absent fields are \<open>JUndefined\<close>. Requests are handled one after the
  other. The handlers' catch-all answer (status 500) is for exceptions of the file
  system and of the JSON parser, which a data file of this shape does not raise; it has
  no branch here.
\<close>

record relative_view =
  rv_id :: nat
  rv_content :: jstring
  sourceLevel :: jstring
  sourceCategory :: jstring
  targetLevel :: jstring
  relativeCategory :: jstring

datatype payload =
    Message jstring
  | NodeJson node
  | RecipeJson recipe
  | RelativeJson relative_view
  | NoBody

datatype response = Response (resp_status: nat) (resp_body: payload)

definition get_relative :: "datafile \<Rightarrow> jstring \<Rightarrow> json \<Rightarrow> datafile \<times> response" where
  "get_relative f idParam levelQuery =
     (case parseParamId (JStr idParam) of
        None \<Rightarrow> (f, Response 400 (Message (js ''id must be a non-negative integer'')))
      | Some i \<Rightarrow>
          let tl = normalizeLevel levelQuery in
          if tl = [] then
            (f, Response 400 (Message
              (js ''query level is required and must be one of album/single/segment/phrase/timbre'')))
          else
            let (f1, list) = readNodeList f in
            (case find (\<lambda>entry. node_id entry = i) list of
               None \<Rightarrow> (f1, Response 404 (Message (js ''Record not found'')))
             | Some item \<Rightarrow>
                 let rc = getRelativeCategory item tl in
                 if rc = [] then
                   (f1, Response 400 (Message
                     ((js ''node '') @ String_of i @ (js '' is not usable in level '') @ tl)))
                 else
                   (f1, Response 200 (RelativeJson
                     \<lparr>rv_id = node_id item, rv_content = node_content item,
                      sourceLevel = node_level item, sourceCategory = node_category item,
                      targetLevel = tl, relativeCategory = rc\<rparr>))))"

definition node_required :: jstring where
  "node_required =
     (js ''content, level, category are required; category must be form or material'')"

text \<open>The record \<open>{ id, ...normalized }\<close>.\<close>

definition node_with :: "nat \<Rightarrow> node_fields \<Rightarrow> node" where
  "node_with i normalized =
     \<lparr>node_id = i,
      node_content = nf_content normalized,
      node_level = nf_level normalized,
      node_category = nf_category normalized\<rparr>"

definition post_node :: "datafile \<Rightarrow> node_body \<Rightarrow> datafile \<times> response" where
  "post_node f body =
     (let normalized = normalizeNode body in
      if nf_content normalized = [] \<or> nf_level normalized = [] \<or> nf_category normalized = []
      then (f, Response 400 (Message node_required))
      else
        let (f1, list) = readNodeList f;
            record = node_with (nextId (map node_id list)) normalized;
            list = record # list;
            f2 = writeNodeList f1 list
        in (f2, Response 201 (NodeJson record)))"

definition patched_node_body :: "node \<Rightarrow> node_body \<Rightarrow> node_body" where
  "patched_node_body old body =
     \<lparr>nb_content = coalesce (nb_content body) (JStr (node_content old)),
      nb_level = coalesce (nb_level body) (JStr (node_level old)),
      nb_category = coalesce (nb_category body) (JStr (node_category old))\<rparr>"

definition patch_node :: "datafile \<Rightarrow> jstring \<Rightarrow> node_body \<Rightarrow> datafile \<times> response" where
  "patch_node f idParam body =
     (case parseParamId (JStr idParam) of
        None \<Rightarrow> (f, Response 400 (Message (js ''id must be a non-negative integer'')))
      | Some i \<Rightarrow>
          let (f1, list) = readNodeList f;
              index = findIndex (\<lambda>n. node_id n = i) list
          in if index = -1 then (f1, Response 404 (Message (js ''Record not found'')))
             else
               let old = list ! nat index;
                   normalized = normalizeNode (patched_node_body old body)
               in if nf_content normalized = [] \<or> nf_level normalized = []
                     \<or> nf_category normalized = []
                  then (f1, Response 400 (Message node_required))
                  else
                    let updated = node_with (node_id old) normalized;
                        list = list[nat index := updated];
                        f2 = writeNodeList f1 list
                    in (f2, Response 200 (NodeJson updated)))"

definition delete_node :: "datafile \<Rightarrow> jstring \<Rightarrow> datafile \<times> response" where
  "delete_node f idParam =
     (case parseParamId (JStr idParam) of
        None \<Rightarrow> (f, Response 400 (Message (js ''id must be a non-negative integer'')))
      | Some targetId \<Rightarrow>
          let (f1, list) = readNodeList f in
          if \<not> list_ex (\<lambda>entry. node_id entry = targetId) list
          then (f1, Response 404 (Message (js ''Record not found'')))
          else
            let next = filter (\<lambda>entry. node_id entry \<noteq> targetId) list;
                f2 = writeNodeList f1 next
            in (f2, Response 204 NoBody))"

definition get_recipe :: "datafile \<Rightarrow> jstring \<Rightarrow> datafile \<times> response" where
  "get_recipe f idParam =
     (case parseParamId (JStr idParam) of
        None \<Rightarrow> (f, Response 400 (Message (js ''id must be a non-negative integer'')))
      | Some i \<Rightarrow>
          let (f1, list) = readRecipeList f in
          (case find (\<lambda>entry. recipe_id entry = i) list of
             None \<Rightarrow> (f1, Response 404 (Message (js ''Record not found'')))
           | Some item \<Rightarrow> (f1, Response 200 (RecipeJson item))))"

definition recipe_required :: jstring where
  "recipe_required = (js ''knowledgePoints[], procedure, level, description are required'')"

definition must_exist :: jstring where
  "must_exist = (js ''knowledgePoints must be existing node ids'')"

definition not_usable :: "jstring \<Rightarrow> nat list \<Rightarrow> jstring" where
  "not_usable lv ids = js ''knowledgePoints not usable in level '' @ lv @ (js '': '') @ join_ids ids"

text \<open>The record \<open>{ id, ...normalized }\<close>.\<close>

definition recipe_with :: "nat \<Rightarrow> recipe_fields \<Rightarrow> recipe" where
  "recipe_with i normalized =
     \<lparr>recipe_id = i,
      knowledgePoints = rf_knowledgePoints normalized,
      procedure = rf_procedure normalized,
      recipe_level = rf_level normalized,
      description = rf_description normalized\<rparr>"

definition post_recipe :: "datafile \<Rightarrow> recipe_body \<Rightarrow> datafile \<times> response" where
  "post_recipe f body =
     (let (f1, ns) = readNodeList f;
          normalized = normalizeRecipe body
      in if rf_knowledgePoints normalized = [] \<or> rf_procedure normalized = []
            \<or> rf_level normalized = [] \<or> rf_description normalized = []
         then (f1, Response 400 (Message recipe_required))
         else if \<not> areValidKnowledgeIds (rf_knowledgePoints normalized) ns
         then (f1, Response 400 (Message must_exist))
         else
           let unavailableIds =
                 findUnavailableKnowledgeIds (rf_knowledgePoints normalized) ns
                   (rf_level normalized)
           in if length unavailableIds > 0
              then (f1, Response 400 (Message (not_usable (rf_level normalized) unavailableIds)))
              else
                let (f2, list) = readRecipeList f1;
                    record = recipe_with (nextId (map recipe_id list)) normalized;
                    list = record # list;
                    f3 = writeRecipeList f2 list
                in (f3, Response 201 (RecipeJson record)))"

text \<open>The body an update normalises: fields the request leaves out keep their old value.\<close>

definition patched_body :: "recipe \<Rightarrow> recipe_body \<Rightarrow> recipe_body" where
  "patched_body old body =
     \<lparr>rb_knowledgePoints =
        coalesce (rb_knowledgePoints body) (json_of_ids (knowledgePoints old)),
      rb_procedure = coalesce (rb_procedure body) (JStr (procedure old)),
      rb_level = coalesce (rb_level body) (JStr (recipe_level old)),
      rb_description = coalesce (rb_description body) (JStr (description old))\<rparr>"

definition patch_recipe :: "datafile \<Rightarrow> jstring \<Rightarrow> recipe_body \<Rightarrow> datafile \<times> response" where
  "patch_recipe f idParam body =
     (case parseParamId (JStr idParam) of
        None \<Rightarrow> (f, Response 400 (Message (js ''id must be a non-negative integer'')))
      | Some i \<Rightarrow>
          let (f1, ns) = readNodeList f;
              (f2, list) = readRecipeList f1;
              index = findIndex (\<lambda>r. recipe_id r = i) list
          in if index = -1 then (f2, Response 404 (Message (js ''Record not found'')))
             else
               let old = list ! nat index;
                   normalized = normalizeRecipe (patched_body old body)
               in if rf_knowledgePoints normalized = [] \<or> rf_procedure normalized = []
                     \<or> rf_level normalized = [] \<or> rf_description normalized = []
                  then (f2, Response 400 (Message recipe_required))
                  else if \<not> areValidKnowledgeIds (rf_knowledgePoints normalized) ns
                  then (f2, Response 400 (Message must_exist))
                  else
                    let unavailableIds =
                          findUnavailableKnowledgeIds (rf_knowledgePoints normalized) ns
                            (rf_level normalized)
                    in if length unavailableIds > 0
                       then (f2, Response 400
                               (Message (not_usable (rf_level normalized) unavailableIds)))
                       else
                         let updated = recipe_with (recipe_id old) normalized;
                             list = list[nat index := updated];
                             f3 = writeRecipeList f2 list
                         in (f3, Response 200 (RecipeJson updated)))"

definition delete_recipe :: "datafile \<Rightarrow> jstring \<Rightarrow> datafile \<times> response" where
  "delete_recipe f idParam =
     (case parseParamId (JStr idParam) of
        None \<Rightarrow> (f, Response 400 (Message (js ''id must be a non-negative integer'')))
      | Some targetId \<Rightarrow>
          let (f1, list) = readRecipeList f in
          if \<not> list_ex (\<lambda>entry. recipe_id entry = targetId) list
          then (f1, Response 404 (Message (js ''Record not found'')))
          else
            let next = filter (\<lambda>entry. recipe_id entry \<noteq> targetId) list;
                f2 = writeRecipeList f1 next
            in (f2, Response 204 NoBody))"

text \<open>
  The three rejections that both recipe handlers apply, in their order, collected in one
  function for the proofs: the message of the first check that fails, if any.
\<close>

definition recipe_checks :: "node list \<Rightarrow> recipe_fields \<Rightarrow> jstring option" where
  "recipe_checks ns normalized =
     (if rf_knowledgePoints normalized = [] \<or> rf_procedure normalized = []
         \<or> rf_level normalized = [] \<or> rf_description normalized = []
      then Some recipe_required
      else if \<not> areValidKnowledgeIds (rf_knowledgePoints normalized) ns
      then Some must_exist
      else if findUnavailableKnowledgeIds (rf_knowledgePoints normalized) ns
                (rf_level normalized) \<noteq> []
      then Some (not_usable (rf_level normalized)
                  (findUnavailableKnowledgeIds (rf_knowledgePoints normalized) ns
                     (rf_level normalized)))
      else None)"

section \<open>Sequences of operations and the persisted compositions\<close>

datatype operation =
    PostNode node_body
  | PatchNode jstring node_body
  | DeleteNode jstring
  | PostRecipe recipe_body
  | PatchRecipe jstring recipe_body
  | DeleteRecipe jstring

fun apply_operation :: "datafile \<Rightarrow> operation \<Rightarrow> datafile" where
  "apply_operation f (PostNode b) = fst (post_node f b)"
| "apply_operation f (PatchNode i b) = fst (patch_node f i b)"
| "apply_operation f (DeleteNode i) = fst (delete_node f i)"
| "apply_operation f (PostRecipe b) = fst (post_recipe f b)"
| "apply_operation f (PatchRecipe i b) = fst (patch_recipe f i b)"
| "apply_operation f (DeleteRecipe i) = fst (delete_recipe f i)"

definition run :: "datafile \<Rightarrow> operation list \<Rightarrow> datafile" where
  "run f ops = foldl apply_operation f ops"

text \<open>The operations on knowledge units that rewrite or remove an existing unit.\<close>

fun rewrites_unit :: "operation \<Rightarrow> bool" where
  "rewrites_unit (PatchNode i b) = True"
| "rewrites_unit (DeleteNode i) = True"
| "rewrites_unit _ = False"

text \<open>
  The invariant of the specification for one composition against a list of knowledge
  units: every id resolves to a unit, and that unit is usable at the composition's level
  by the resolver of the specification.
\<close>

definition composition_ok :: "node list \<Rightarrow> recipe \<Rightarrow> bool" where
  "composition_ok ns r =
     list_all (\<lambda>i. case find (\<lambda>n. node_id n = i) ns of
                     None \<Rightarrow> False
                   | Some u \<Rightarrow>
                       resolve_spec (node_level u) (node_category u) (recipe_level r) \<noteq> None)
       (knowledgePoints r)"

definition persisted_ok :: "datafile \<Rightarrow> bool" where
  "persisted_ok f =
     (case f of Absent \<Rightarrow> True | Content ns rs \<Rightarrow> list_all (composition_ok ns) rs)"

text \<open>Records in the form the handlers write them.\<close>

definition wf_node :: "node \<Rightarrow> bool" where
  "wf_node n =
     (node_content n \<noteq> [] \<and> trim (node_content n) = node_content n
      \<and> node_level n \<in> set LEVELS \<and> node_category n \<in> set CATEGORY)"

definition wf_recipe :: "recipe \<Rightarrow> bool" where
  "wf_recipe r =
     (knowledgePoints r \<noteq> []
      \<and> procedure r \<noteq> [] \<and> trim (procedure r) = procedure r
      \<and> description r \<noteq> [] \<and> trim (description r) = description r
      \<and> recipe_level r \<in> set LEVELS)"

definition wf_file :: "datafile \<Rightarrow> bool" where
  "wf_file f =
     (case f of
        Absent \<Rightarrow> True
      | Content ns rs \<Rightarrow>
          list_all wf_node ns \<and> distinct (map node_id ns)
          \<and> list_all wf_recipe rs \<and> distinct (map recipe_id rs))"

text \<open>The data file a read leaves behind: an absent file is created empty.\<close>

definition after_read :: "datafile \<Rightarrow> datafile" where
  "after_read f = (case f of Absent \<Rightarrow> Content [] [] | Content ns rs \<Rightarrow> f)"

section \<open>The single-hop rule\<close>

lemma js_inject [simp]: "js a = js b \<longleftrightarrow> a = b"
  by (simp add: js_def inj_map_eq_map inj_on_def)

lemma js_append [simp]: "js a @ js b = js (a @ b)"
  by (simp add: js_def)

lemma js_Nil [simp]: "js s = [] \<longleftrightarrow> s = []" "[] = js s \<longleftrightarrow> s = []"
  by (auto simp: js_def)

lemma level_cases:
  "l \<in> set LEVEL_ORDER \<Longrightarrow>
   l = js ''album'' \<or> l = js ''single'' \<or> l = js ''segment'' \<or> l = js ''phrase'' \<or> l = (js ''timbre'')"
  by (auto simp: LEVEL_ORDER_def)

lemma indexOf_levels:
  "indexOf LEVEL_ORDER (js ''album'') = 0"
  "indexOf LEVEL_ORDER (js ''single'') = 1"
  "indexOf LEVEL_ORDER (js ''segment'') = 2"
  "indexOf LEVEL_ORDER (js ''phrase'') = 3"
  "indexOf LEVEL_ORDER (js ''timbre'') = 4"
  by (simp_all add: LEVEL_ORDER_def)

lemma js_index_levels:
  "js_index LEVEL_ORDER (-1) = None"
  "js_index LEVEL_ORDER 0 = Some (js ''album'')"
  "js_index LEVEL_ORDER 1 = Some (js ''single'')"
  "js_index LEVEL_ORDER 2 = Some (js ''segment'')"
  "js_index LEVEL_ORDER 3 = Some (js ''phrase'')"
  "js_index LEVEL_ORDER 4 = Some (js ''timbre'')"
  "js_index LEVEL_ORDER 5 = None"
  by (simp_all add: LEVEL_ORDER_def js_index_def)

text \<open>The parent and child tables are the neighbours in rank.\<close>

lemma parent_rank:
  "l \<in> set LEVEL_ORDER \<Longrightarrow> p \<in> set LEVEL_ORDER \<Longrightarrow>
   parent l = Some p \<longleftrightarrow> map_option Suc (rank p) = rank l"
  by (drule level_cases, drule level_cases, elim disjE) (simp_all add: parent_def)

lemma child_rank:
  "l \<in> set LEVEL_ORDER \<Longrightarrow> c \<in> set LEVEL_ORDER \<Longrightarrow>
   child l = Some c \<longleftrightarrow> rank c = map_option Suc (rank l)"
  by (drule level_cases, drule level_cases, elim disjE) (simp_all add: child_def)

lemma resolve_agrees:
  assumes "node_level u \<in> set LEVEL_ORDER"
      and "node_category u \<in> set CATEGORY"
      and "t \<in> set LEVEL_ORDER"
  shows "getRelativeCategory u t =
           (case resolve_spec (node_level u) (node_category u) t of
              Some c \<Rightarrow> c | None \<Rightarrow> [])"
proof -
  from assms(2) have "node_category u = js ''form'' \<or> node_category u = (js ''material'')"
    by (auto simp: CATEGORY_def)
  with level_cases[OF assms(1)] level_cases[OF assms(3)] show ?thesis
    by (elim disjE) (simp_all add: getRelativeCategory_def resolve_spec_def parent_def
          child_def indexOf_levels js_index_levels)
qed

lemma usable_agrees:
  assumes "node_level u \<in> set LEVEL_ORDER"
      and "node_category u \<in> set CATEGORY"
  shows "t \<in> set (getUsableLevelsForNode u) \<longleftrightarrow> getRelativeCategory u t \<noteq> []"
proof -
  from assms(2) have "node_category u = js ''form'' \<or> node_category u = (js ''material'')"
    by (auto simp: CATEGORY_def)
  with level_cases[OF assms(1)] show ?thesis
    by (elim disjE) (auto simp add: getRelativeCategory_def getUsableLevelsForNode_def
          indexOf_levels js_index_levels set_add_def)
qed

text \<open>
  C1. For a unit whose level is one of the five ranks and whose category is form or
  material, and a target level among the five ranks, \<open>getRelativeCategory\<close> returns what
  the resolver of the specification returns: the unit's category at its own level,
  material for a form one rank coarser, form for a material one rank finer, and the empty
  string (unusable) in every other case.
\<close>

theorem getRelativeCategory_single_hop:
  assumes "node_level u \<in> set LEVEL_ORDER"
      and "node_category u \<in> set CATEGORY"
      and "t \<in> set LEVEL_ORDER"
  shows "getRelativeCategory u t =
           (if t = node_level u then node_category u
            else if Some t = parent (node_level u) \<and> node_category u = js ''form''
              then (js ''material'')
            else if Some t = child (node_level u) \<and> node_category u = js ''material''
              then (js ''form'')
            else [])"
proof -
  from assms(2) have "node_category u = js ''form'' \<or> node_category u = (js ''material'')"
    by (auto simp: CATEGORY_def)
  with level_cases[OF assms(1)] level_cases[OF assms(3)] show ?thesis
    by (elim disjE) (simp_all add: getRelativeCategory_def parent_def child_def
          indexOf_levels js_index_levels)
qed

theorem getRelativeCategory_single_hop_witness:
  "getRelativeCategory
     \<lparr>node_id = 7, node_content = js ''c'', node_level = js ''single'', node_category = js ''form''\<rparr>
     (js ''album'') = js ''material''
   \<and> getRelativeCategory
     \<lparr>node_id = 7, node_content = js ''c'', node_level = js ''single'', node_category = js ''form''\<rparr>
     (js ''segment'') = []"
  using getRelativeCategory_single_hop[of
      "\<lparr>node_id = 7, node_content = js ''c'', node_level = js ''single'', node_category = js ''form''\<rparr>"
      "(js ''album'')"]
    getRelativeCategory_single_hop[of
      "\<lparr>node_id = 7, node_content = js ''c'', node_level = js ''single'', node_category = js ''form''\<rparr>"
      "(js ''segment'')"]
  by (simp add: LEVEL_ORDER_def CATEGORY_def parent_def child_def)

text \<open>
  C9. For a node whose level is one of the five ranks and whose category is form or
  material, a target level is among \<open>getUsableLevelsForNode\<close> exactly when
  \<open>getRelativeCategory\<close> gives a non-empty category for it.
\<close>

theorem usable_levels_iff_relative_category:
  assumes "node_level u \<in> set LEVEL_ORDER"
      and "node_category u \<in> set CATEGORY"
  shows "t \<in> set (getUsableLevelsForNode u) \<longleftrightarrow> getRelativeCategory u t \<noteq> []"
  using usable_agrees[OF assms] .

theorem usable_levels_iff_relative_category_witness:
  "(js ''phrase'') \<in> set (getUsableLevelsForNode
      \<lparr>node_id = 3, node_content = js ''c'', node_level = js ''segment'',
       node_category = js ''material''\<rparr>)
   \<and> getRelativeCategory
      \<lparr>node_id = 3, node_content = js ''c'', node_level = js ''segment'',
       node_category = js ''material''\<rparr> (js ''phrase'') = (js ''form'')"
  using usable_levels_iff_relative_category[of
      "\<lparr>node_id = 3, node_content = js ''c'', node_level = js ''segment'',
        node_category = js ''material''\<rparr>" "(js ''phrase'')"]
  by (simp add: LEVEL_ORDER_def CATEGORY_def getRelativeCategory_def
        getUsableLevelsForNode_def js_index_def set_add_def)

section \<open>Normalisation is idempotent\<close>

lemma trim_idem: "trim (trim s) = trim s"
proof -
  define u where "u = dropWhile is_space (rev (dropWhile is_space s))"
  have u_front: "dropWhile is_space u = u" by (simp add: u_def)
  have "dropWhile is_space (rev u) = rev u"
  proof (cases "u = []")
    case True then show ?thesis by simp
  next
    case False
    obtain pre where pre: "rev (dropWhile is_space s) = pre @ u"
      unfolding u_def by (metis takeWhile_dropWhile_id)
    from False pre have ne: "dropWhile is_space s \<noteq> []"
      by (metis append_is_Nil_conv rev_is_Nil_conv)
    from pre have "dropWhile is_space s = rev u @ rev pre"
      by (metis rev_append rev_rev_ident)
    with False have "hd (rev u) = hd (dropWhile is_space s)" by simp
    with hd_dropWhile[OF ne] have "\<not> is_space (hd (rev u))" by simp
    then show ?thesis by (simp add: dropWhile_eq_self_iff)
  qed
  then show ?thesis
    unfolding trim_def u_def[symmetric] by (simp add: u_front)
qed

lemma trim_padded:
  assumes "s \<noteq> []" "\<not> is_space (hd s)" "\<not> is_space (last s)"
      and "list_all is_space a" "list_all is_space b"
  shows "trim (a @ s @ b) = s"
proof -
  have "dropWhile is_space (a @ s @ b) = dropWhile is_space (s @ b)"
    using assms(4) by (intro dropWhile_append2) (simp add: list_all_iff)
  also have "\<dots> = s @ b"
    using assms(1,2) by (subst dropWhile_eq_self_iff) simp
  finally have 1: "dropWhile is_space (a @ s @ b) = s @ b" .
  have "dropWhile is_space (rev b @ rev s) = dropWhile is_space (rev s)"
    using assms(5) by (intro dropWhile_append2) (simp add: list_all_iff)
  also have "\<dots> = rev s"
    using assms(1,3) by (subst dropWhile_eq_self_iff) (simp add: hd_rev)
  finally have 2: "dropWhile is_space (rev b @ rev s) = rev s" .
  show ?thesis by (simp add: trim_def 1 2)
qed

lemma normalizeLevel_valid: "normalizeLevel v = [] \<or> normalizeLevel v \<in> set LEVELS"
  by (simp add: normalizeLevel_def Let_def)

lemma normalizeCategory_valid: "normalizeCategory v = [] \<or> normalizeCategory v \<in> set CATEGORY"
  by (simp add: normalizeCategory_def Let_def)

lemma trim_levels:
  "l \<in> set LEVELS \<Longrightarrow> trim l = l"
  by (auto simp: LEVELS_def trim_def is_space_def js_def)

lemma lower_levels:
  "l \<in> set LEVELS \<Longrightarrow> toLowerCase l = l"
  by (auto simp: LEVELS_def toLowerCase_def lower_char_def js_def)

lemma normalizeLevel_fix: "l \<in> set LEVELS \<Longrightarrow> normalizeLevel (JStr l) = l"
  by (simp add: normalizeLevel_def toSafeLower_def toSafeString_def trim_levels lower_levels)

lemma normalizeCategory_fix: "c \<in> set CATEGORY \<Longrightarrow> normalizeCategory (JStr c) = c"
  by (auto simp: CATEGORY_def normalizeCategory_def toSafeLower_def toSafeString_def
      trim_def is_space_def toLowerCase_def lower_char_def js_def)

lemma normalizeNumericId_nat [simp]: "normalizeNumericId (JInt (int n)) = Some n"
  by (simp add: normalizeNumericId_def)

lemma map_filter_ids [simp]:
  "List.map_filter (\<lambda>v. normalizeNumericId v) (map (\<lambda>i. JInt (int i)) ks) = ks"
  by (induction ks) simp_all

lemma normalizeKnowledgePoints_ids [simp]:
  "normalizeKnowledgePoints (json_of_ids ks) = ks"
  by (simp add: normalizeKnowledgePoints_def json_of_ids_def)

lemma first_free_fresh: "first_free used i \<notin> set used"
proof (induction used i rule: first_free.induct)
  case (1 used i)
  show ?case
  proof (cases "i \<in> set used")
    case True
    with 1 show ?thesis by (subst first_free.simps) simp
  next
    case False
    then show ?thesis by (subst first_free.simps) simp
  qed
qed

lemma pick_id_fresh: "pick_id e used \<notin> set used"
  by (simp add: pick_id_def first_free_fresh split: option.splits)

section \<open>What a read of the data file returns\<close>

lemma prepareNode_Some:
  assumes "prepareNode n = Some p"
  shows "pn_existingNumericId p = Some (node_id n)"
    and "pn_content p \<noteq> []" and "trim (pn_content p) = pn_content p"
    and "pn_level p \<in> set LEVELS" and "pn_category p \<in> set CATEGORY"
proof -
  let ?nn = "normalizeNode (json_of_node n)"
  from assms have c: "nf_content ?nn \<noteq> []" and l: "nf_level ?nn \<noteq> []"
    by (auto simp: prepareNode_def Let_def split: if_splits)
  from assms c l have p: "p = \<lparr>pn_existingNumericId = Some (node_id n),
      pn_content = nf_content ?nn, pn_level = nf_level ?nn,
      pn_category = (if nf_category ?nn \<noteq> [] then nf_category ?nn
         else if normalizeCategory (JStr (node_category n)) \<noteq> []
              then normalizeCategory (JStr (node_category n)) else (js ''form''))\<rparr>"
    by (simp add: prepareNode_def Let_def)
  show "pn_existingNumericId p = Some (node_id n)" by (simp add: p)
  show "pn_content p \<noteq> []" using c by (simp add: p)
  show "trim (pn_content p) = pn_content p"
    by (simp add: p normalizeNode_def json_of_node_def toSafeString_def trim_idem)
  show "pn_level p \<in> set LEVELS"
    using l normalizeLevel_valid[of "nb_level (json_of_node n)"]
    by (simp add: p normalizeNode_def)
  show "pn_category p \<in> set CATEGORY"
    using normalizeCategory_valid[of "nb_category (json_of_node n)"]
      normalizeCategory_valid[of "JStr (node_category n)"]
    by (auto simp add: p normalizeNode_def CATEGORY_def)
qed

lemma prepareNode_wf:
  assumes "wf_node n"
  shows "prepareNode n =
    Some \<lparr>pn_existingNumericId = Some (node_id n), pn_content = node_content n,
          pn_level = node_level n, pn_category = node_category n\<rparr>"
proof -
  from assms have l: "normalizeLevel (JStr (node_level n)) = node_level n"
    and c: "normalizeCategory (JStr (node_category n)) = node_category n"
    and t: "trim (node_content n) = node_content n"
    and ne: "node_content n \<noteq> []" "node_level n \<noteq> []" "node_category n \<noteq> []"
    by (auto simp: wf_node_def normalizeLevel_fix normalizeCategory_fix LEVELS_def CATEGORY_def)
  show ?thesis
    by (simp add: prepareNode_def normalizeNode_def json_of_node_def toSafeString_def l c t ne)
qed

lemma assignNodeIds_ids:
  "distinct (map node_id (assignNodeIds used ps))
   \<and> set (map node_id (assignNodeIds used ps)) \<inter> set used = {}"
proof (induction ps arbitrary: used)
  case Nil
  then show ?case by simp
next
  case (Cons p ps)
  let ?i = "pick_id (pn_existingNumericId p) used"
  from Cons.IH[of "?i # used"] pick_id_fresh[of "pn_existingNumericId p" used]
  show ?case by (auto simp: Let_def node_of_def)
qed

lemma assignNodeIds_fields:
  "n \<in> set (assignNodeIds used ps) \<Longrightarrow>
   \<exists>p\<in>set ps. node_content n = pn_content p \<and> node_level n = pn_level p
             \<and> node_category n = pn_category p"
  by (induction ps arbitrary: used) (auto simp: Let_def node_of_def)

lemma assignNodeIds_keep:
  assumes "list_all (\<lambda>p. pn_existingNumericId p \<noteq> None) ps"
      and "distinct (map (\<lambda>p. the (pn_existingNumericId p)) ps)"
      and "set (map (\<lambda>p. the (pn_existingNumericId p)) ps) \<inter> set used = {}"
  shows "assignNodeIds used ps = map (\<lambda>p. node_of (the (pn_existingNumericId p)) p) ps"
  using assms
proof (induction ps arbitrary: used)
  case Nil
  then show ?case by simp
next
  case (Cons p ps)
  from Cons.prems obtain i where i: "pn_existingNumericId p = Some i" by auto
  with Cons.prems have fresh: "i \<notin> set used" by auto
  then have pick: "pick_id (Some i) used = i" by (simp add: pick_id_def)
  from Cons.prems i have "assignNodeIds (i # used) ps
      = map (\<lambda>p. node_of (the (pn_existingNumericId p)) p) ps"
    by (intro Cons.IH) auto
  then show ?case by (simp add: pick i Let_def)
qed

lemma node_eta:
  "\<lparr>node_id = node_id x, node_content = node_content x, node_level = node_level x,
    node_category = node_category x\<rparr> = (x::node)"
  by (cases x) simp

lemma recipe_eta:
  "\<lparr>recipe_id = recipe_id x, knowledgePoints = knowledgePoints x, procedure = procedure x,
    recipe_level = recipe_level x, description = description x\<rparr> = (x::recipe)"
  by (cases x) simp

lemma map_filter_prepareNode_wf:
  "list_all wf_node ns \<Longrightarrow>
   List.map_filter prepareNode ns =
     map (\<lambda>n. \<lparr>pn_existingNumericId = Some (node_id n), pn_content = node_content n,
          pn_level = node_level n, pn_category = node_category n\<rparr>) ns"
  by (induction ns) (simp_all add: prepareNode_wf)

lemma parseStore_nodes_fix:
  assumes "list_all wf_node ns" and "distinct (map node_id ns)"
  shows "nodes (parseStore ns rs) = ns"
proof -
  let ?ps = "List.map_filter prepareNode ns"
  have ps: "?ps = map (\<lambda>n. \<lparr>pn_existingNumericId = Some (node_id n),
          pn_content = node_content n,
          pn_level = node_level n, pn_category = node_category n\<rparr>) ns"
    using assms(1) by (rule map_filter_prepareNode_wf)
  have "assignNodeIds [] ?ps = map (\<lambda>p. node_of (the (pn_existingNumericId p)) p) ?ps"
    using assms(2) by (intro assignNodeIds_keep) (simp_all add: ps list_all_iff comp_def)
  also have "\<dots> = ns"
    by (simp add: ps comp_def node_of_def node_eta)
  finally show ?thesis by (simp add: parseStore_def Let_def)
qed

lemma parseStore_nodes_wf:
  "list_all wf_node (nodes (parseStore rn rr))"
proof -
  { fix n assume "n \<in> set (assignNodeIds [] (List.map_filter prepareNode rn))"
    then obtain p where p: "p \<in> set (List.map_filter prepareNode rn)"
      and f: "node_content n = pn_content p" "node_level n = pn_level p"
        "node_category n = pn_category p"
      using assignNodeIds_fields by blast
    from p obtain r where "prepareNode r = Some p"
      by (auto simp: List.map_filter_def)
    from prepareNode_Some[OF this] f have "wf_node n" by (simp add: wf_node_def) }
  then show ?thesis by (simp add: parseStore_def Let_def list_all_iff)
qed

lemma parseStore_nodes_distinct:
  "distinct (map node_id (nodes (parseStore rn rr)))"
  using assignNodeIds_ids[of "[]"] by (simp add: parseStore_def Let_def)

lemma prepareRecipe_Some:
  assumes "prepareRecipe ns r = Some p"
  shows "pr_existingNumericId p = Some (recipe_id r)"
    and "pr_knowledgePoints p = knowledgePoints r"
    and "knowledgePoints r \<noteq> []"
    and "areValidKnowledgeIds (knowledgePoints r) ns"
    and "pr_procedure p \<noteq> []" and "trim (pr_procedure p) = pr_procedure p"
    and "pr_description p \<noteq> []" and "trim (pr_description p) = pr_description p"
    and "pr_level p \<in> set LEVELS"
proof -
  let ?nr = "normalizeRecipe (json_of_recipe r)"
  from assms have ne: "rf_level ?nr \<noteq> []" "rf_description ?nr \<noteq> []"
      "rf_procedure ?nr \<noteq> []" "knowledgePoints r \<noteq> []"
    and v: "areValidKnowledgeIds (knowledgePoints r) ns"
    by (auto simp: prepareRecipe_def Let_def split: if_splits)
  from assms ne v have p: "p = \<lparr>pr_existingNumericId = Some (recipe_id r),
      pr_knowledgePoints = knowledgePoints r, pr_procedure = rf_procedure ?nr,
      pr_level = rf_level ?nr, pr_description = rf_description ?nr\<rparr>"
    by (simp add: prepareRecipe_def Let_def)
  show "pr_existingNumericId p = Some (recipe_id r)" by (simp add: p)
  show "pr_knowledgePoints p = knowledgePoints r" by (simp add: p)
  show "knowledgePoints r \<noteq> []" by (rule ne)
  show "areValidKnowledgeIds (knowledgePoints r) ns" by (rule v)
  show "pr_procedure p \<noteq> []" using ne by (simp add: p)
  show "pr_description p \<noteq> []" using ne by (simp add: p)
  show "trim (pr_procedure p) = pr_procedure p"
    by (simp add: p normalizeRecipe_def json_of_recipe_def toSafeString_def trim_idem)
  show "trim (pr_description p) = pr_description p"
    by (simp add: p normalizeRecipe_def json_of_recipe_def toSafeString_def trim_idem)
  show "pr_level p \<in> set LEVELS"
    using ne(1) normalizeLevel_valid[of "rb_level (json_of_recipe r)"]
    by (simp add: p normalizeRecipe_def)
qed

lemma prepareRecipe_wf:
  assumes "wf_recipe r"
  shows "prepareRecipe ns r =
    (if areValidKnowledgeIds (knowledgePoints r) ns
     then Some \<lparr>pr_existingNumericId = Some (recipe_id r),
            pr_knowledgePoints = knowledgePoints r, pr_procedure = procedure r,
            pr_level = recipe_level r, pr_description = description r\<rparr>
     else None)"
proof -
  from assms have l: "normalizeLevel (JStr (recipe_level r)) = recipe_level r"
    and t: "trim (procedure r) = procedure r" "trim (description r) = description r"
    and ne: "procedure r \<noteq> []" "recipe_level r \<noteq> []" "description r \<noteq> []"
      "knowledgePoints r \<noteq> []"
    by (auto simp: wf_recipe_def normalizeLevel_fix LEVELS_def)
  show ?thesis
    by (simp add: prepareRecipe_def normalizeRecipe_def json_of_recipe_def toSafeString_def
        l t ne)
qed

lemma assignRecipeIds_ids:
  "distinct (map recipe_id (assignRecipeIds used ps))
   \<and> set (map recipe_id (assignRecipeIds used ps)) \<inter> set used = {}"
proof (induction ps arbitrary: used)
  case Nil
  then show ?case by simp
next
  case (Cons p ps)
  let ?i = "pick_id (pr_existingNumericId p) used"
  from Cons.IH[of "?i # used"] pick_id_fresh[of "pr_existingNumericId p" used]
  show ?case by (auto simp: Let_def recipe_of_def)
qed

lemma assignRecipeIds_fields:
  "r \<in> set (assignRecipeIds used ps) \<Longrightarrow>
   \<exists>p\<in>set ps. knowledgePoints r = pr_knowledgePoints p \<and> procedure r = pr_procedure p
             \<and> recipe_level r = pr_level p \<and> description r = pr_description p"
  by (induction ps arbitrary: used) (auto simp: Let_def recipe_of_def)

lemma assignRecipeIds_keep:
  assumes "list_all (\<lambda>p. pr_existingNumericId p \<noteq> None) ps"
      and "distinct (map (\<lambda>p. the (pr_existingNumericId p)) ps)"
      and "set (map (\<lambda>p. the (pr_existingNumericId p)) ps) \<inter> set used = {}"
  shows "assignRecipeIds used ps = map (\<lambda>p. recipe_of (the (pr_existingNumericId p)) p) ps"
  using assms
proof (induction ps arbitrary: used)
  case Nil
  then show ?case by simp
next
  case (Cons p ps)
  from Cons.prems obtain i where i: "pr_existingNumericId p = Some i" by auto
  with Cons.prems have fresh: "i \<notin> set used" by auto
  then have pick: "pick_id (Some i) used = i" by (simp add: pick_id_def)
  from Cons.prems i have "assignRecipeIds (i # used) ps
      = map (\<lambda>p. recipe_of (the (pr_existingNumericId p)) p) ps"
    by (intro Cons.IH) auto
  then show ?case by (simp add: pick i Let_def)
qed

lemma map_filter_prepareRecipe_wf:
  "list_all wf_recipe rs \<Longrightarrow>
   List.map_filter (prepareRecipe ns) rs =
     map (\<lambda>r. \<lparr>pr_existingNumericId = Some (recipe_id r),
            pr_knowledgePoints = knowledgePoints r, pr_procedure = procedure r,
            pr_level = recipe_level r, pr_description = description r\<rparr>)
       (filter (\<lambda>r. areValidKnowledgeIds (knowledgePoints r) ns) rs)"
  by (induction rs) (simp_all add: prepareRecipe_wf)

lemma parseStore_recipes_fix:
  assumes "list_all wf_node ns" and "distinct (map node_id ns)"
      and "list_all wf_recipe rs" and "distinct (map recipe_id rs)"
  shows "recipes (parseStore ns rs) =
           filter (\<lambda>r. areValidKnowledgeIds (knowledgePoints r) ns) rs"
proof -
  let ?keep = "filter (\<lambda>r. areValidKnowledgeIds (knowledgePoints r) ns) rs"
  let ?ps = "List.map_filter (prepareRecipe ns) rs"
  have ns: "assignNodeIds [] (List.map_filter prepareNode ns) = ns"
    using parseStore_nodes_fix[OF assms(1,2), of rs] by (simp add: parseStore_def Let_def)
  have ps: "?ps = map (\<lambda>r. \<lparr>pr_existingNumericId = Some (recipe_id r),
            pr_knowledgePoints = knowledgePoints r, pr_procedure = procedure r,
            pr_level = recipe_level r, pr_description = description r\<rparr>) ?keep"
    using assms(3) by (rule map_filter_prepareRecipe_wf)
  have d: "distinct (map recipe_id ?keep)"
    using assms(4) by (rule distinct_map_filter)
  have "assignRecipeIds [] ?ps = map (\<lambda>p. recipe_of (the (pr_existingNumericId p)) p) ?ps"
    using d by (intro assignRecipeIds_keep) (simp_all add: ps list_all_iff comp_def)
  also have "\<dots> = ?keep"
    by (simp add: ps comp_def recipe_of_def recipe_eta)
  finally show ?thesis by (simp add: parseStore_def Let_def ns)
qed

lemma parseStore_recipes_props:
  assumes "r \<in> set (recipes (parseStore rn rr))"
  shows "wf_recipe r" and "areValidKnowledgeIds (knowledgePoints r) (nodes (parseStore rn rr))"
proof -
  let ?ns = "assignNodeIds [] (List.map_filter prepareNode rn)"
  from assms have "r \<in> set (assignRecipeIds [] (List.map_filter (prepareRecipe ?ns) rr))"
    by (simp add: parseStore_def Let_def)
  then obtain p where p: "p \<in> set (List.map_filter (prepareRecipe ?ns) rr)"
    and f: "knowledgePoints r = pr_knowledgePoints p" "procedure r = pr_procedure p"
      "recipe_level r = pr_level p" "description r = pr_description p"
    using assignRecipeIds_fields by blast
  from p obtain raw where raw: "prepareRecipe ?ns raw = Some p"
    by (auto simp: List.map_filter_def)
  from prepareRecipe_Some[OF raw] f show "wf_recipe r" by (simp add: wf_recipe_def)
  from prepareRecipe_Some[OF raw] f
  show "areValidKnowledgeIds (knowledgePoints r) (nodes (parseStore rn rr))"
    by (simp add: parseStore_def Let_def)
qed

lemma parseStore_recipes_distinct:
  "distinct (map recipe_id (recipes (parseStore rn rr)))"
  using assignRecipeIds_ids[of "[]"] by (simp add: parseStore_def Let_def)

lemma parseStore_wf:
  "wf_file (Content (nodes (parseStore rn rr)) (recipes (parseStore rn rr)))"
  using parseStore_recipes_props(1)[of _ rn rr] parseStore_nodes_wf[of rn rr]
  by (simp add: wf_file_def parseStore_nodes_distinct parseStore_recipes_distinct list_all_iff)

lemma readStore_fst: "fst (readStore f) = after_read f"
  by (cases f) (simp_all add: readStore_def after_read_def writeStore_def)

lemma parseStore_empty: "parseStore [] [] = \<lparr>nodes = [], recipes = []\<rparr>"
  by (simp add: parseStore_def)

lemma readStore_after_read: "readStore (after_read f) = (after_read f, snd (readStore f))"
  by (cases f) (simp_all add: readStore_def after_read_def parseStore_empty)

lemma after_read_idem: "after_read (after_read f) = after_read f"
  by (cases f) (simp_all add: after_read_def)

lemma readStore_wf:
  "wf_file (Content (nodes (snd (readStore f))) (recipes (snd (readStore f))))"
  by (cases f) (simp_all add: readStore_def parseStore_wf, simp add: wf_file_def)

section \<open>Input normalisation\<close>

lemma lower_char_space: "is_space c \<Longrightarrow> lower_char c = c"
  by (auto simp: is_space_def lower_char_def)

lemma toLowerCase_no_space:
  assumes "toLowerCase s = l" and "list_all (\<lambda>c. \<not> is_space c) l"
  shows "list_all (\<lambda>c. \<not> is_space c) s"
proof -
  { fix c assume c: "c \<in> set s" and sp: "is_space c"
    from c assms(1) have "lower_char c \<in> set l" by (auto simp: toLowerCase_def)
    with sp lower_char_space[OF sp] assms(2) have False by (simp add: list_all_iff) }
  then show ?thesis by (auto simp: list_all_iff)
qed

lemma levels_no_space: "l \<in> set LEVELS \<Longrightarrow> l \<noteq> [] \<and> list_all (\<lambda>c. \<not> is_space c) l"
  by (auto simp: LEVELS_def is_space_def js_def)

lemma categories_no_space:
  "l \<in> set CATEGORY \<Longrightarrow> l \<noteq> [] \<and> list_all (\<lambda>c. \<not> is_space c) l"
  by (auto simp: CATEGORY_def is_space_def js_def)

lemma trim_padded_word:
  assumes "s \<noteq> []" and "list_all (\<lambda>c. \<not> is_space c) s"
      and "list_all is_space a" and "list_all is_space b"
  shows "trim (a @ s @ b) = s"
proof (rule trim_padded)
  show "s \<noteq> []" by fact
  show "\<not> is_space (hd s)" using assms(1,2) by (cases s) simp_all
  show "\<not> is_space (last s)" using assms(1,2) by (simp add: list_all_iff)
qed (fact+)

lemma padded_lower:
  assumes "toLowerCase s = l" and "l \<noteq> []" and "list_all (\<lambda>c. \<not> is_space c) l"
      and "list_all is_space a" and "list_all is_space b"
  shows "toSafeLower (JStr (a @ s @ b)) = l"
proof -
  from assms(1,2) have "s \<noteq> []" by (auto simp: toLowerCase_def)
  with toLowerCase_no_space[OF assms(1,3)] assms(4,5)
  have "trim (a @ s @ b) = s" by (intro trim_padded_word)
  then show ?thesis by (simp add: toSafeLower_def toSafeString_def assms(1))
qed

lemma decimal_snoc: "decimal (xs @ [c]) = 10 * decimal xs + (c - 48)"
  by (simp add: decimal_def)

lemma String_of_props:
  "decimal (String_of n) = n \<and> list_all is_digit (String_of n) \<and> String_of n \<noteq> []"
proof (induction n rule: String_of.induct)
  case (1 n)
  show ?case
  proof (cases "n < 10")
    case True
    then have "is_digit (48 + n)" by (simp add: is_digit_def)
    with True show ?thesis
      by (subst (1 2 3) String_of.simps) (simp add: decimal_def)
  next
    case False
    have "is_digit (48 + n mod 10)" by (simp add: is_digit_def)
    with False 1 show ?thesis
      by (subst (1 2 3) String_of.simps) (simp add: decimal_snoc)
  qed
qed

lemma to_double_small: "n < 2 ^ 53 \<Longrightarrow> to_double n = n"
  by (simp add: to_double_def)

lemma digit_no_space: "is_digit c \<Longrightarrow> \<not> is_space c"
  by (auto simp: is_digit_def is_space_def)

lemma normalizeNumericId_digits:
  assumes "all_digits ds" and "list_all is_space a" and "list_all is_space b"
  shows "normalizeNumericId (JStr (a @ ds @ b)) = Some (Number_of ds)"
proof -
  from assms(1) have "ds \<noteq> []" and "list_all (\<lambda>c. \<not> is_space c) ds"
    by (auto simp: all_digits_def list_all_iff digit_no_space)
  with assms(2,3) have "trim (a @ ds @ b) = ds" by (intro trim_padded_word)
  with assms(1) show ?thesis by (simp add: normalizeNumericId_def toSafeString_def)
qed

section \<open>The usability preview\<close>

lemma readStore_nodes_wf:
  "u \<in> set (nodes (snd (readStore f))) \<Longrightarrow> wf_node u"
  using readStore_wf[of f] by (simp add: wf_file_def list_all_iff)

lemma levels_same: "LEVELS = LEVEL_ORDER"
  by (simp add: LEVELS_def LEVEL_ORDER_def)

lemma resolve_spec_nonempty:
  "c \<in> set CATEGORY \<Longrightarrow> resolve_spec l c t = Some e \<Longrightarrow> e \<noteq> []"
  by (auto simp: resolve_spec_def CATEGORY_def split: if_splits)

lemma find_in_set: "find P xs = Some x \<Longrightarrow> x \<in> set xs \<and> P x"
  by (induction xs) (auto split: if_splits)

lemma readNodeList_eq: "readNodeList f = (after_read f, nodes (snd (readStore f)))"
  using readStore_fst[of f] by (simp add: readNodeList_def split_beta)

lemma readRecipeList_eq: "readRecipeList f = (after_read f, recipes (snd (readStore f)))"
  using readStore_fst[of f] by (simp add: readRecipeList_def split_beta)

text \<open>
  C8. For a well-formed id and a valid target level, the preview answers 404 when no
  unit has the id; otherwise it looks only at that unit: 400 "not usable" when the
  resolver of the specification rejects it, and otherwise 200 with the unit's level and
  category, the target level, and as relative category the resolver's result.
\<close>

theorem get_relative_outcome:
  assumes "parseParamId (JStr idParam) = Some i"
      and "normalizeLevel q = t" and "t \<noteq> []"
  shows "snd (get_relative f idParam q) =
     (case find (\<lambda>n. node_id n = i) (nodes (snd (readStore f))) of
        None \<Rightarrow> Response 404 (Message (js ''Record not found''))
      | Some u \<Rightarrow>
          (case resolve_spec (node_level u) (node_category u) t of
             None \<Rightarrow> Response 400
               (Message ((js ''node '') @ String_of i @ (js '' is not usable in level '') @ t))
           | Some c \<Rightarrow> Response 200 (RelativeJson
               \<lparr>rv_id = i, rv_content = node_content u, sourceLevel = node_level u,
                sourceCategory = node_category u, targetLevel = t,
                relativeCategory = c\<rparr>)))"
proof (cases "find (\<lambda>n. node_id n = i) (nodes (snd (readStore f)))")
  case None
  with assms show ?thesis by (simp add: get_relative_def readNodeList_eq)
next
  case (Some u)
  from find_in_set[OF Some] have u: "wf_node u" and i: "node_id u = i"
    using readStore_nodes_wf by auto
  from assms(2,3) normalizeLevel_valid[of q] have t: "t \<in> set LEVEL_ORDER"
    by (simp add: levels_same)
  from u have ul: "node_level u \<in> set LEVEL_ORDER" and uc: "node_category u \<in> set CATEGORY"
    by (simp_all add: wf_node_def levels_same)
  note r = resolve_agrees[OF ul uc t]
  show ?thesis
  proof (cases "resolve_spec (node_level u) (node_category u) t")
    case None
    with r have "getRelativeCategory u t = []" by simp
    with assms Some None show ?thesis by (simp add: get_relative_def readNodeList_eq)
  next
    case (Some c)
    with r resolve_spec_nonempty[OF uc Some]
    have "getRelativeCategory u t = c" "c \<noteq> []" by simp_all
    with assms \<open>find _ _ = Some u\<close> Some i show ?thesis
      by (simp add: get_relative_def readNodeList_eq)
  qed
qed

theorem get_relative_outcome_witness:
  "snd (get_relative
      (Content [\<lparr>node_id = 12, node_content = js ''c'', node_level = js ''single'',
                 node_category = js ''form''\<rparr>] [])
      (js ''12'') (JStr (js '' Album '')))
   = Response 200 (RelativeJson
       \<lparr>rv_id = 12, rv_content = js ''c'', sourceLevel = js ''single'', sourceCategory = js ''form'',
        targetLevel = js ''album'', relativeCategory = js ''material''\<rparr>)
   \<and> snd (get_relative
      (Content [\<lparr>node_id = 12, node_content = js ''c'', node_level = js ''single'',
                 node_category = js ''form''\<rparr>] [])
      (js ''12'') (JStr (js ''segment'')))
   = Response 400 (Message (js ''node 12 is not usable in level segment''))"
proof -
  let ?f = "Content [\<lparr>node_id = 12, node_content = js ''c'', node_level = js ''single'',
                 node_category = js ''form''\<rparr>] []"
  have p: "parseParamId (JStr (js ''12'')) = Some 12" by code_simp
  have l1: "normalizeLevel (JStr (js '' Album '')) = (js ''album'')" by code_simp
  have l2: "normalizeLevel (JStr (js ''segment'')) = (js ''segment'')" by code_simp
  have ne: "(js ''album'') \<noteq> []" "(js ''segment'') \<noteq> []" by simp_all
  have st: "nodes (snd (readStore ?f)) = [\<lparr>node_id = 12, node_content = js ''c'',
      node_level = js ''single'', node_category = js ''form''\<rparr>]" by code_simp
  have s12: "String_of 12 = (js ''12'')" by code_simp
  from get_relative_outcome[OF p l1 ne(1), of ?f] get_relative_outcome[OF p l2 ne(2), of ?f]
  show ?thesis by (simp add: st resolve_spec_def parent_def child_def s12)
qed

section \<open>Creating and updating compositions\<close>

lemma writeRecipeList_eq:
  "writeRecipeList f rs = Content (nodes (snd (readStore f))) rs"
  by (simp add: writeRecipeList_def writeStore_def split_beta)

lemma writeNodeList_eq:
  "writeNodeList f ns = Content ns (recipes (snd (readStore f)))"
  by (simp add: writeNodeList_def writeStore_def split_beta)

lemma readStore_snd_after_read [simp]:
  "snd (readStore (after_read f)) = snd (readStore f)"
  by (simp add: readStore_after_read)

lemma post_recipe_eq:
  "post_recipe f b =
     (case recipe_checks (nodes (snd (readStore f))) (normalizeRecipe b) of
        Some m \<Rightarrow> (after_read f, Response 400 (Message m))
      | None \<Rightarrow>
          (Content (nodes (snd (readStore f)))
             (recipe_with (nextId (map recipe_id (recipes (snd (readStore f)))))
                (normalizeRecipe b) # recipes (snd (readStore f))),
           Response 201 (RecipeJson
             (recipe_with (nextId (map recipe_id (recipes (snd (readStore f)))))
                (normalizeRecipe b)))))"
  by (simp add: post_recipe_def recipe_checks_def readNodeList_eq readRecipeList_eq
      writeRecipeList_eq Let_def)

lemma patch_recipe_eq:
  assumes "parseParamId (JStr idParam) = Some i"
      and "findIndex (\<lambda>r. recipe_id r = i) (recipes (snd (readStore f))) = k"
      and "k \<noteq> -1"
      and "old = recipes (snd (readStore f)) ! nat k"
  shows "patch_recipe f idParam b =
     (case recipe_checks (nodes (snd (readStore f))) (normalizeRecipe (patched_body old b)) of
        Some m \<Rightarrow> (after_read f, Response 400 (Message m))
      | None \<Rightarrow>
          (Content (nodes (snd (readStore f)))
             ((recipes (snd (readStore f)))
                [nat k := recipe_with (recipe_id old) (normalizeRecipe (patched_body old b))]),
           Response 200 (RecipeJson
             (recipe_with (recipe_id old) (normalizeRecipe (patched_body old b))))))"
  using assms
  by (simp add: patch_recipe_def recipe_checks_def readNodeList_eq readRecipeList_eq
      writeRecipeList_eq Let_def after_read_idem)

lemma patch_recipe_bad_id:
  "parseParamId (JStr idParam) = None \<Longrightarrow>
   patch_recipe f idParam b = (f, Response 400 (Message (js ''id must be a non-negative integer'')))"
  by (simp add: patch_recipe_def)

lemma patch_recipe_not_found:
  "parseParamId (JStr idParam) = Some i \<Longrightarrow>
   findIndex (\<lambda>r. recipe_id r = i) (recipes (snd (readStore f))) = -1 \<Longrightarrow>
   patch_recipe f idParam b = (after_read f, Response 404 (Message (js ''Record not found'')))"
  by (simp add: patch_recipe_def readNodeList_eq readRecipeList_eq after_read_idem)

lemma after_read_same:
  "snd (readStore (after_read f)) = snd (readStore f) \<and> (f \<noteq> Absent \<longrightarrow> after_read f = f)"
proof (intro conjI impI)
  show "snd (readStore (after_read f)) = snd (readStore f)" by simp
  show "after_read f = f" if "f \<noteq> Absent" using that by (cases f) (simp_all add: after_read_def)
qed

lemma post_recipe_snd:
  "snd (post_recipe f b) =
     (case recipe_checks (nodes (snd (readStore f))) (normalizeRecipe b) of
        Some m \<Rightarrow> Response 400 (Message m)
      | None \<Rightarrow> Response 201 (RecipeJson
             (recipe_with (nextId (map recipe_id (recipes (snd (readStore f)))))
                (normalizeRecipe b))))"
  by (simp add: post_recipe_eq split: option.splits)

lemma post_recipe_fst:
  "fst (post_recipe f b) =
     (case recipe_checks (nodes (snd (readStore f))) (normalizeRecipe b) of
        Some m \<Rightarrow> after_read f
      | None \<Rightarrow> Content (nodes (snd (readStore f)))
             (recipe_with (nextId (map recipe_id (recipes (snd (readStore f)))))
                (normalizeRecipe b) # recipes (snd (readStore f))))"
  by (simp add: post_recipe_eq split: option.splits)

lemma patch_recipe_snd:
  assumes "parseParamId (JStr idParam) = Some i"
      and "findIndex (\<lambda>r. recipe_id r = i) (recipes (snd (readStore f))) = k"
      and "k \<noteq> -1"
      and "old = recipes (snd (readStore f)) ! nat k"
  shows "snd (patch_recipe f idParam b) =
     (case recipe_checks (nodes (snd (readStore f))) (normalizeRecipe (patched_body old b)) of
        Some m \<Rightarrow> Response 400 (Message m)
      | None \<Rightarrow> Response 200 (RecipeJson
             (recipe_with (recipe_id old) (normalizeRecipe (patched_body old b)))))"
  by (simp add: patch_recipe_eq[OF assms] split: option.splits)

lemma patch_recipe_fst:
  assumes "parseParamId (JStr idParam) = Some i"
      and "findIndex (\<lambda>r. recipe_id r = i) (recipes (snd (readStore f))) = k"
      and "k \<noteq> -1"
      and "old = recipes (snd (readStore f)) ! nat k"
  shows "fst (patch_recipe f idParam b) =
     (case recipe_checks (nodes (snd (readStore f))) (normalizeRecipe (patched_body old b)) of
        Some m \<Rightarrow> after_read f
      | None \<Rightarrow> Content (nodes (snd (readStore f)))
             ((recipes (snd (readStore f)))
                [nat k := recipe_with (recipe_id old) (normalizeRecipe (patched_body old b))]))"
  by (simp add: patch_recipe_eq[OF assms] split: option.splits)

lemma post_recipe_failure:
  assumes "resp_status (snd (post_recipe f b)) \<noteq> 201"
  shows "fst (post_recipe f b) = after_read f"
proof (cases "recipe_checks (nodes (snd (readStore f))) (normalizeRecipe b)")
  case None
  with assms show ?thesis by (simp add: post_recipe_snd)
next
  case (Some m)
  then show ?thesis by (simp add: post_recipe_fst)
qed

lemma patch_recipe_failure:
  assumes "resp_status (snd (patch_recipe f idParam b)) \<noteq> 200"
  shows "fst (patch_recipe f idParam b) = f \<or> fst (patch_recipe f idParam b) = after_read f"
proof (cases "parseParamId (JStr idParam)")
  case None
  then show ?thesis by (simp add: patch_recipe_bad_id)
next
  case (Some i)
  show ?thesis
  proof (cases "findIndex (\<lambda>r. recipe_id r = i) (recipes (snd (readStore f))) = -1")
    case True
    with Some show ?thesis by (simp add: patch_recipe_not_found)
  next
    case False
    note s = patch_recipe_snd[OF Some refl False refl, of b]
    note t = patch_recipe_fst[OF Some refl False refl, of b]
    show ?thesis
    proof (cases "recipe_checks (nodes (snd (readStore f)))
        (normalizeRecipe (patched_body
           (recipes (snd (readStore f)) !
              nat (findIndex (\<lambda>r. recipe_id r = i) (recipes (snd (readStore f))))) b))")
      case None
      with assms s show ?thesis by simp
    next
      case (Some m)
      with t show ?thesis by simp
    qed
  qed
qed

lemma unchanged_cases:
  assumes "g = f \<or> g = after_read f"
  shows "snd (readStore g) = snd (readStore f) \<and> (f \<noteq> Absent \<longrightarrow> g = f)"
  using assms after_read_same[of f] by auto

lemma areValid_find:
  "areValidKnowledgeIds ids ns \<longleftrightarrow> list_all (\<lambda>i. find (\<lambda>n. node_id n = i) ns \<noteq> None) ids"
  by (auto simp: areValidKnowledgeIds_def list_all_iff find_None_iff)

lemma recipe_checks_failure:
  assumes "rf_knowledgePoints nr = []
        \<or> \<not> areValidKnowledgeIds (rf_knowledgePoints nr) ns
        \<or> findUnavailableKnowledgeIds (rf_knowledgePoints nr) ns (rf_level nr) \<noteq> []"
  shows "recipe_checks ns nr \<noteq> None"
  using assms by (auto simp: recipe_checks_def)

text \<open>
  C7. A creation or update whose knowledge-point list is empty, names a missing id or
  names an id unusable at the level is answered with status 400; and whenever a creation
  or update is not answered with success, a read of the data file returns what it
  returned before, and a data file that existed is unchanged.
\<close>

theorem failed_validation_writes_nothing:
  "(rf_knowledgePoints (normalizeRecipe b) = []
      \<or> \<not> areValidKnowledgeIds (rf_knowledgePoints (normalizeRecipe b))
            (nodes (snd (readStore f)))
      \<or> findUnavailableKnowledgeIds (rf_knowledgePoints (normalizeRecipe b))
            (nodes (snd (readStore f))) (rf_level (normalizeRecipe b)) \<noteq> []
    \<longrightarrow> resp_status (snd (post_recipe f b)) = 400)
   \<and> (resp_status (snd (post_recipe f b)) \<noteq> 201 \<longrightarrow>
      snd (readStore (fst (post_recipe f b))) = snd (readStore f)
      \<and> (f \<noteq> Absent \<longrightarrow> fst (post_recipe f b) = f))
   \<and> (parseParamId (JStr idParam) = Some i
      \<and> findIndex (\<lambda>r. recipe_id r = i) (recipes (snd (readStore f))) = k \<and> k \<noteq> -1
      \<and> nr = normalizeRecipe (patched_body (recipes (snd (readStore f)) ! nat k) b)
      \<and> (rf_knowledgePoints nr = []
          \<or> \<not> areValidKnowledgeIds (rf_knowledgePoints nr) (nodes (snd (readStore f)))
          \<or> findUnavailableKnowledgeIds (rf_knowledgePoints nr)
               (nodes (snd (readStore f))) (rf_level nr) \<noteq> [])
    \<longrightarrow> resp_status (snd (patch_recipe f idParam b)) = 400)
   \<and> (resp_status (snd (patch_recipe f idParam b)) \<noteq> 200 \<longrightarrow>
      snd (readStore (fst (patch_recipe f idParam b))) = snd (readStore f)
      \<and> (f \<noteq> Absent \<longrightarrow> fst (patch_recipe f idParam b) = f))"
proof (rule conjI; (rule conjI)?; (rule conjI)?; rule impI)
  assume "rf_knowledgePoints (normalizeRecipe b) = []
      \<or> \<not> areValidKnowledgeIds (rf_knowledgePoints (normalizeRecipe b))
            (nodes (snd (readStore f)))
      \<or> findUnavailableKnowledgeIds (rf_knowledgePoints (normalizeRecipe b))
            (nodes (snd (readStore f))) (rf_level (normalizeRecipe b)) \<noteq> []"
  from recipe_checks_failure[OF this]
  show "resp_status (snd (post_recipe f b)) = 400"
    by (auto simp: post_recipe_snd)
next
  assume a: "resp_status (snd (post_recipe f b)) \<noteq> 201"
  from post_recipe_failure[OF a]
  have "fst (post_recipe f b) = f \<or> fst (post_recipe f b) = after_read f" by simp
  from unchanged_cases[OF this]
  show "snd (readStore (fst (post_recipe f b))) = snd (readStore f)
      \<and> (f \<noteq> Absent \<longrightarrow> fst (post_recipe f b) = f)" .
next
  assume h: "parseParamId (JStr idParam) = Some i
      \<and> findIndex (\<lambda>r. recipe_id r = i) (recipes (snd (readStore f))) = k \<and> k \<noteq> -1
      \<and> nr = normalizeRecipe (patched_body (recipes (snd (readStore f)) ! nat k) b)
      \<and> (rf_knowledgePoints nr = []
          \<or> \<not> areValidKnowledgeIds (rf_knowledgePoints nr) (nodes (snd (readStore f)))
          \<or> findUnavailableKnowledgeIds (rf_knowledgePoints nr)
               (nodes (snd (readStore f))) (rf_level nr) \<noteq> [])"
  then have p: "parseParamId (JStr idParam) = Some i"
    and k: "findIndex (\<lambda>r. recipe_id r = i) (recipes (snd (readStore f))) = k" "k \<noteq> -1"
    and nr: "nr = normalizeRecipe (patched_body (recipes (snd (readStore f)) ! nat k) b)"
    and fl: "rf_knowledgePoints nr = []
          \<or> \<not> areValidKnowledgeIds (rf_knowledgePoints nr) (nodes (snd (readStore f)))
          \<or> findUnavailableKnowledgeIds (rf_knowledgePoints nr)
               (nodes (snd (readStore f))) (rf_level nr) \<noteq> []"
    by blast+
  from recipe_checks_failure[OF fl] nr
  show "resp_status (snd (patch_recipe f idParam b)) = 400"
    by (auto simp: patch_recipe_snd[OF p k refl])
next
  assume a: "resp_status (snd (patch_recipe f idParam b)) \<noteq> 200"
  from unchanged_cases[OF patch_recipe_failure[OF a]]
  show "snd (readStore (fst (patch_recipe f idParam b))) = snd (readStore f)
      \<and> (f \<noteq> Absent \<longrightarrow> fst (patch_recipe f idParam b) = f)" .
qed

section \<open>Missing ids\<close>

lemma recipe_checks_missing:
  assumes "rf_procedure nr \<noteq> []" and "rf_level nr \<noteq> []" and "rf_description nr \<noteq> []"
      and "j \<in> set (rf_knowledgePoints nr)"
      and "find (\<lambda>n. node_id n = j) ns = None"
  shows "recipe_checks ns nr = Some (js ''knowledgePoints must be existing node ids'')"
proof -
  from assms(4) have ne: "rf_knowledgePoints nr \<noteq> []" by auto
  from assms(4,5) have "\<not> areValidKnowledgeIds (rf_knowledgePoints nr) ns"
    by (auto simp: areValid_find list_all_iff)
  with ne assms(1-3) show ?thesis by (simp add: recipe_checks_def must_exist_def)
qed

text \<open>
  C3 (as amended). When the normalised request has a procedure, a level and a description
  and lists an id that no knowledge unit has, creation and update answer with status 400
  and the fixed message "knowledgePoints must be existing node ids", whatever the
  usability of the other ids, and write nothing. The message does not name the missing
  ids.
\<close>

theorem missing_ids_rejected_before_usability:
  "(rf_procedure (normalizeRecipe b) \<noteq> [] \<and> rf_level (normalizeRecipe b) \<noteq> []
      \<and> rf_description (normalizeRecipe b) \<noteq> []
      \<and> j \<in> set (rf_knowledgePoints (normalizeRecipe b))
      \<and> find (\<lambda>n. node_id n = j) (nodes (snd (readStore f))) = None
    \<longrightarrow> post_recipe f b =
          (after_read f, Response 400 (Message (js ''knowledgePoints must be existing node ids''))))
   \<and> (parseParamId (JStr idParam) = Some i
      \<and> findIndex (\<lambda>r. recipe_id r = i) (recipes (snd (readStore f))) = k \<and> k \<noteq> -1
      \<and> nr = normalizeRecipe (patched_body (recipes (snd (readStore f)) ! nat k) b)
      \<and> rf_procedure nr \<noteq> [] \<and> rf_level nr \<noteq> [] \<and> rf_description nr \<noteq> []
      \<and> j \<in> set (rf_knowledgePoints nr)
      \<and> find (\<lambda>n. node_id n = j) (nodes (snd (readStore f))) = None
    \<longrightarrow> patch_recipe f idParam b =
          (after_read f, Response 400 (Message (js ''knowledgePoints must be existing node ids''))))"
proof (rule conjI; rule impI)
  assume "rf_procedure (normalizeRecipe b) \<noteq> [] \<and> rf_level (normalizeRecipe b) \<noteq> []
      \<and> rf_description (normalizeRecipe b) \<noteq> []
      \<and> j \<in> set (rf_knowledgePoints (normalizeRecipe b))
      \<and> find (\<lambda>n. node_id n = j) (nodes (snd (readStore f))) = None"
  then have "recipe_checks (nodes (snd (readStore f))) (normalizeRecipe b)
      = Some (js ''knowledgePoints must be existing node ids'')"
    by (intro recipe_checks_missing) blast+
  then show "post_recipe f b =
          (after_read f, Response 400 (Message (js ''knowledgePoints must be existing node ids'')))"
    by (simp add: post_recipe_eq)
next
  assume h: "parseParamId (JStr idParam) = Some i
      \<and> findIndex (\<lambda>r. recipe_id r = i) (recipes (snd (readStore f))) = k \<and> k \<noteq> -1
      \<and> nr = normalizeRecipe (patched_body (recipes (snd (readStore f)) ! nat k) b)
      \<and> rf_procedure nr \<noteq> [] \<and> rf_level nr \<noteq> [] \<and> rf_description nr \<noteq> []
      \<and> j \<in> set (rf_knowledgePoints nr)
      \<and> find (\<lambda>n. node_id n = j) (nodes (snd (readStore f))) = None"
  then have p: "parseParamId (JStr idParam) = Some i"
    and k: "findIndex (\<lambda>r. recipe_id r = i) (recipes (snd (readStore f))) = k" "k \<noteq> -1"
    and nr: "nr = normalizeRecipe (patched_body (recipes (snd (readStore f)) ! nat k) b)"
    by blast+
  from h have "recipe_checks (nodes (snd (readStore f))) nr
      = Some (js ''knowledgePoints must be existing node ids'')"
    by (intro recipe_checks_missing) blast+
  then show "patch_recipe f idParam b =
          (after_read f, Response 400 (Message (js ''knowledgePoints must be existing node ids'')))"
    by (simp add: patch_recipe_eq[OF p k refl] nr)
qed

text \<open>Id 5 exists but is unusable at the level; the missing id 9 decides the answer.\<close>

theorem missing_ids_rejected_before_usability_witness:
  "post_recipe
     (Content [\<lparr>node_id = 5, node_content = js ''c'', node_level = js ''timbre'',
                node_category = js ''material''\<rparr>] [])
     \<lparr>rb_knowledgePoints = JArr [JInt 5, JInt 9], rb_procedure = JStr (js ''p''),
      rb_level = JStr (js ''single''), rb_description = JStr (js ''d'')\<rparr>
   = (Content [\<lparr>node_id = 5, node_content = js ''c'', node_level = js ''timbre'',
                node_category = js ''material''\<rparr>] [],
      Response 400 (Message (js ''knowledgePoints must be existing node ids'')))"
proof -
  let ?f = "Content [\<lparr>node_id = 5, node_content = js ''c'', node_level = js ''timbre'',
                node_category = js ''material''\<rparr>] []"
  let ?b = "\<lparr>rb_knowledgePoints = JArr [JInt 5, JInt 9], rb_procedure = JStr (js ''p''),
      rb_level = JStr (js ''single''), rb_description = JStr (js ''d'')\<rparr>"
  have h: "rf_procedure (normalizeRecipe ?b) \<noteq> [] \<and> rf_level (normalizeRecipe ?b) \<noteq> []
      \<and> rf_description (normalizeRecipe ?b) \<noteq> []
      \<and> 9 \<in> set (rf_knowledgePoints (normalizeRecipe ?b))
      \<and> find (\<lambda>n. node_id n = 9) (nodes (snd (readStore ?f))) = None"
    by code_simp
  have a: "after_read ?f = ?f" by (simp add: after_read_def)
  from missing_ids_rejected_before_usability[of ?b 9 ?f] h a show ?thesis by simp
qed

text \<open>
  The claim as stated fails: the answer for the missing id 9 is the answer for the
  missing id 7, and its message does not contain the digit 9.
\<close>

theorem missing_ids_are_not_named:
  "snd (post_recipe
     (Content [\<lparr>node_id = 5, node_content = js ''c'', node_level = js ''single'',
                node_category = js ''form''\<rparr>] [])
     \<lparr>rb_knowledgePoints = JArr [JInt 5, JInt 9], rb_procedure = JStr (js ''p''),
      rb_level = JStr (js ''single''), rb_description = JStr (js ''d'')\<rparr>)
   = Response 400 (Message (js ''knowledgePoints must be existing node ids''))
   \<and> snd (post_recipe
     (Content [\<lparr>node_id = 5, node_content = js ''c'', node_level = js ''single'',
                node_category = js ''form''\<rparr>] [])
     \<lparr>rb_knowledgePoints = JArr [JInt 5, JInt 7], rb_procedure = JStr (js ''p''),
      rb_level = JStr (js ''single''), rb_description = JStr (js ''d'')\<rparr>)
   = Response 400 (Message (js ''knowledgePoints must be existing node ids''))
   \<and> 57 \<notin> set (js ''knowledgePoints must be existing node ids'')"
  by code_simp

lemma normalizeRecipe_clean:
  "normalizeRecipe
     (b\<lparr>rb_knowledgePoints := json_of_ids (normalizeKnowledgePoints (rb_knowledgePoints b))\<rparr>)
   = normalizeRecipe b"
  by (simp add: normalizeRecipe_def)

lemma recipe_checks_required:
  "rf_knowledgePoints nr = [] \<or> rf_level nr = [] \<Longrightarrow>
   recipe_checks ns nr = Some recipe_required"
  by (auto simp: recipe_checks_def)

section \<open>An instance of the failure theorem\<close>

theorem failed_validation_writes_nothing_witness:
  "resp_status (snd (post_recipe
      (Content [\<lparr>node_id = 0, node_content = js ''c'', node_level = js ''single'',
                 node_category = js ''form''\<rparr>] [])
      \<lparr>rb_knowledgePoints = JArr [JInt 0], rb_procedure = JStr (js ''p''),
       rb_level = JStr (js ''timbre''), rb_description = JStr (js ''d'')\<rparr>)) = 400
   \<and> fst (post_recipe
      (Content [\<lparr>node_id = 0, node_content = js ''c'', node_level = js ''single'',
                 node_category = js ''form''\<rparr>] [])
      \<lparr>rb_knowledgePoints = JArr [JInt 0], rb_procedure = JStr (js ''p''),
       rb_level = JStr (js ''timbre''), rb_description = JStr (js ''d'')\<rparr>)
     = Content [\<lparr>node_id = 0, node_content = js ''c'', node_level = js ''single'',
                 node_category = js ''form''\<rparr>] []"
proof -
  let ?f = "Content [\<lparr>node_id = 0, node_content = js ''c'', node_level = js ''single'',
                 node_category = js ''form''\<rparr>] []"
  let ?b = "\<lparr>rb_knowledgePoints = JArr [JInt 0], rb_procedure = JStr (js ''p''),
       rb_level = JStr (js ''timbre''), rb_description = JStr (js ''d'')\<rparr>"
  have h: "findUnavailableKnowledgeIds (rf_knowledgePoints (normalizeRecipe ?b))
            (nodes (snd (readStore ?f))) (rf_level (normalizeRecipe ?b)) \<noteq> []"
    by code_simp
  note t = failed_validation_writes_nothing[where b = ?b and f = ?f]
  from t h have s: "resp_status (snd (post_recipe ?f ?b)) = 400" by blast
  then have "resp_status (snd (post_recipe ?f ?b)) \<noteq> 201" by simp
  with t have "fst (post_recipe ?f ?b) = ?f" by blast
  with s show ?thesis by simp
qed

section \<open>Deleting a referenced knowledge unit\<close>

lemma readStore_parts:
  "list_all wf_node (nodes (snd (readStore f)))"
  "distinct (map node_id (nodes (snd (readStore f))))"
  "list_all wf_recipe (recipes (snd (readStore f)))"
  "distinct (map recipe_id (recipes (snd (readStore f))))"
  using readStore_wf[of f] by (simp_all add: wf_file_def)

lemma readStore_recipes_exist:
  "r \<in> set (recipes (snd (readStore f))) \<Longrightarrow>
   areValidKnowledgeIds (knowledgePoints r) (nodes (snd (readStore f)))"
  by (cases f) (auto simp: readStore_def parseStore_recipes_props(2))

lemma readStore_Content:
  assumes "list_all wf_node ns" and "distinct (map node_id ns)"
      and "list_all wf_recipe rs" and "distinct (map recipe_id rs)"
  shows "snd (readStore (Content ns rs)) =
     \<lparr>nodes = ns, recipes = filter (\<lambda>r. areValidKnowledgeIds (knowledgePoints r) ns) rs\<rparr>"
  using parseStore_nodes_fix[OF assms(1,2), of rs] parseStore_recipes_fix[OF assms]
  by (simp add: readStore_def)

lemma delete_node_eq:
  assumes "parseParamId (JStr idParam) = Some i"
      and "list_ex (\<lambda>n. node_id n = i) (nodes (snd (readStore f)))"
  shows "delete_node f idParam =
     (Content (filter (\<lambda>n. node_id n \<noteq> i) (nodes (snd (readStore f))))
        (recipes (snd (readStore f))), Response 204 NoBody)"
  using assms by (simp add: delete_node_def readNodeList_eq writeNodeList_eq)

lemma areValid_after_delete:
  assumes "areValidKnowledgeIds ks ns"
  shows "areValidKnowledgeIds ks (filter (\<lambda>n. node_id n \<noteq> i) ns) \<longleftrightarrow> i \<notin> set ks"
  using assms by (auto simp: areValidKnowledgeIds_def list_all_iff)

text \<open>
  C5 (as amended). Deleting a knowledge unit that exists succeeds with status 204 and
  rewrites the data file with the unit removed and every composition record as it was
  read, so a composition that references the unit stays in the file with its knowledge
  points unchanged. Every later read of the data file returns only the compositions that
  do not reference the deleted id, and the next write of the node list stores only
  those.
\<close>

theorem delete_keeps_record_but_reads_hide_it:
  assumes "parseParamId (JStr idParam) = Some i"
      and "list_ex (\<lambda>n. node_id n = i) (nodes (snd (readStore f)))"
  shows "delete_node f idParam =
           (Content (filter (\<lambda>n. node_id n \<noteq> i) (nodes (snd (readStore f))))
              (recipes (snd (readStore f))), Response 204 NoBody)
       \<and> snd (readStore (fst (delete_node f idParam))) =
           \<lparr>nodes = filter (\<lambda>n. node_id n \<noteq> i) (nodes (snd (readStore f))),
            recipes = filter (\<lambda>r. i \<notin> set (knowledgePoints r)) (recipes (snd (readStore f)))\<rparr>
       \<and> writeNodeList (fst (delete_node f idParam)) ns' =
           Content ns'
             (filter (\<lambda>r. i \<notin> set (knowledgePoints r)) (recipes (snd (readStore f))))"
proof -
  let ?ns = "nodes (snd (readStore f))" and ?rs = "recipes (snd (readStore f))"
  let ?ns' = "filter (\<lambda>n. node_id n \<noteq> i) ?ns"
  note d = delete_node_eq[OF assms]
  have wf: "list_all wf_node ?ns'" "distinct (map node_id ?ns')"
    using readStore_parts(1,2)[of f] by (simp_all add: list_all_iff distinct_map_filter)
  have "filter (\<lambda>r. areValidKnowledgeIds (knowledgePoints r) ?ns') ?rs
      = filter (\<lambda>r. i \<notin> set (knowledgePoints r)) ?rs"
    by (intro filter_cong refl areValid_after_delete readStore_recipes_exist)
  with readStore_Content[OF wf readStore_parts(3,4)[of f]]
  have r: "snd (readStore (Content ?ns' ?rs)) =
      \<lparr>nodes = ?ns', recipes = filter (\<lambda>r. i \<notin> set (knowledgePoints r)) ?rs\<rparr>"
    by simp
  show ?thesis by (simp add: d r writeNodeList_eq)
qed

theorem delete_keeps_record_but_reads_hide_it_witness:
  "delete_node
     (Content [\<lparr>node_id = 0, node_content = js ''c'', node_level = js ''single'',
                node_category = js ''form''\<rparr>]
        [\<lparr>recipe_id = 0, knowledgePoints = [0], procedure = js ''p'',
          recipe_level = js ''single'', description = js ''d''\<rparr>]) (js ''0'')
   = (Content []
        [\<lparr>recipe_id = 0, knowledgePoints = [0], procedure = js ''p'',
          recipe_level = js ''single'', description = js ''d''\<rparr>], Response 204 NoBody)
   \<and> snd (readStore (fst (delete_node
     (Content [\<lparr>node_id = 0, node_content = js ''c'', node_level = js ''single'',
                node_category = js ''form''\<rparr>]
        [\<lparr>recipe_id = 0, knowledgePoints = [0], procedure = js ''p'',
          recipe_level = js ''single'', description = js ''d''\<rparr>]) (js ''0''))))
     = \<lparr>nodes = [], recipes = []\<rparr>"
proof -
  let ?f = "Content [\<lparr>node_id = 0, node_content = js ''c'', node_level = js ''single'',
                node_category = js ''form''\<rparr>]
        [\<lparr>recipe_id = 0, knowledgePoints = [0], procedure = js ''p'',
          recipe_level = js ''single'', description = js ''d''\<rparr>]"
  have p: "parseParamId (JStr (js ''0'')) = Some 0" by code_simp
  have st: "snd (readStore ?f) = \<lparr>nodes = [\<lparr>node_id = 0, node_content = js ''c'',
      node_level = js ''single'', node_category = js ''form''\<rparr>],
      recipes = [\<lparr>recipe_id = 0, knowledgePoints = [0], procedure = js ''p'',
          recipe_level = js ''single'', description = js ''d''\<rparr>]\<rparr>" by code_simp
  have e: "list_ex (\<lambda>n. node_id n = 0) (nodes (snd (readStore ?f)))" by (simp add: st)
  note t = delete_keeps_record_but_reads_hide_it[OF p e, of "[]", unfolded st]
  have 1: "delete_node ?f (js ''0'') = (Content []
        [\<lparr>recipe_id = 0, knowledgePoints = [0], procedure = js ''p'',
          recipe_level = js ''single'', description = js ''d''\<rparr>], Response 204 NoBody)"
    using t[THEN conjunct1] by simp
  have 2: "snd (readStore (fst (delete_node ?f (js ''0'')))) = \<lparr>nodes = [], recipes = []\<rparr>"
    using t[THEN conjunct2, THEN conjunct1] by simp
  from 1 2 show ?thesis by (rule conjI)
qed

text \<open>
  The claim as stated fails: the composition is readable before the unit is deleted and
  is not found afterwards.
\<close>

theorem referenced_composition_unreadable_after_delete:
  "snd (get_recipe
     (Content [\<lparr>node_id = 0, node_content = js ''c'', node_level = js ''single'',
                node_category = js ''form''\<rparr>]
        [\<lparr>recipe_id = 0, knowledgePoints = [0], procedure = js ''p'',
          recipe_level = js ''single'', description = js ''d''\<rparr>]) (js ''0''))
   = Response 200 (RecipeJson \<lparr>recipe_id = 0, knowledgePoints = [0], procedure = js ''p'',
          recipe_level = js ''single'', description = js ''d''\<rparr>)
   \<and> snd (delete_node
     (Content [\<lparr>node_id = 0, node_content = js ''c'', node_level = js ''single'',
                node_category = js ''form''\<rparr>]
        [\<lparr>recipe_id = 0, knowledgePoints = [0], procedure = js ''p'',
          recipe_level = js ''single'', description = js ''d''\<rparr>]) (js ''0''))
   = Response 204 NoBody
   \<and> snd (get_recipe (fst (delete_node
     (Content [\<lparr>node_id = 0, node_content = js ''c'', node_level = js ''single'',
                node_category = js ''form''\<rparr>]
        [\<lparr>recipe_id = 0, knowledgePoints = [0], procedure = js ''p'',
          recipe_level = js ''single'', description = js ''d''\<rparr>]) (js ''0''))) (js ''0''))
   = Response 404 (Message (js ''Record not found''))"
  by code_simp

section \<open>The invariant of persisted compositions\<close>

lemma find_None_image: "i \<notin> f ` set xs \<Longrightarrow> find (\<lambda>n. f n = i) xs = None"
  by (induction xs) auto

lemma trim_Nil: "trim [] = []"
  by (simp add: trim_def)

lemma trim_toSafeString: "trim (toSafeString v) = toSafeString v"
  by (cases v) (simp_all add: toSafeString_def trim_idem trim_Nil)

lemma nodeMap_get_find:
  "distinct (map node_id ns) \<Longrightarrow> nodeMap_get ns i = find (\<lambda>n. node_id n = i) ns"
proof (induction ns)
  case Nil
  then show ?case by (simp add: nodeMap_get_def)
next
  case (Cons x xs)
  then have ih: "map_of (rev (map (\<lambda>n. (node_id n, n)) xs)) i = find (\<lambda>n. node_id n = i) xs"
    by (simp add: nodeMap_get_def)
  show ?case
  proof (cases "node_id x = i")
    case True
    with Cons.prems have "find (\<lambda>n. node_id n = i) xs = None"
      by (intro find_None_image) auto
    with ih True show ?thesis
      by (simp add: nodeMap_get_def map_add_def)
  next
    case False
    with ih show ?thesis
      by (simp add: nodeMap_get_def map_add_def split: option.splits)
  qed
qed

lemma usable_resolve:
  assumes "wf_node n" and "t \<in> set LEVELS"
  shows "t \<in> set (getUsableLevelsForNode n)
     \<longleftrightarrow> resolve_spec (node_level n) (node_category n) t \<noteq> None"
proof -
  from assms have l: "node_level n \<in> set LEVEL_ORDER" and c: "node_category n \<in> set CATEGORY"
    and t: "t \<in> set LEVEL_ORDER"
    by (simp_all add: wf_node_def levels_same)
  show ?thesis
  proof (cases "resolve_spec (node_level n) (node_category n) t")
    case None
    with resolve_agrees[OF l c t] usable_agrees[OF l c, of t] show ?thesis by simp
  next
    case (Some e)
    with resolve_agrees[OF l c t] usable_agrees[OF l c, of t] resolve_spec_nonempty[OF c Some]
    show ?thesis by simp
  qed
qed

lemma composition_ok_valid:
  "composition_ok ns r \<Longrightarrow> areValidKnowledgeIds (knowledgePoints r) ns"
  by (auto simp: composition_ok_def areValid_find list_all_iff split: option.splits)

lemma normalizeRecipe_wf:
  assumes "recipe_checks ns (normalizeRecipe b) = None"
  shows "wf_recipe (recipe_with j (normalizeRecipe b))"
proof -
  let ?nr = "normalizeRecipe b"
  from assms have ne: "rf_knowledgePoints ?nr \<noteq> []" "rf_procedure ?nr \<noteq> []"
      "rf_level ?nr \<noteq> []" "rf_description ?nr \<noteq> []"
    by (auto simp: recipe_checks_def split: if_splits)
  note t = trim_toSafeString
  from ne(3) normalizeLevel_valid[of "rb_level b"] have "rf_level ?nr \<in> set LEVELS"
    by (simp add: normalizeRecipe_def)
  with ne show ?thesis
    by (simp add: wf_recipe_def recipe_with_def) (simp add: normalizeRecipe_def t)
qed

lemma checks_give_composition_ok:
  assumes "recipe_checks ns nr = None" and "rf_level nr \<in> set LEVELS"
      and "list_all wf_node ns" and "distinct (map node_id ns)"
  shows "composition_ok ns (recipe_with j nr)"
proof -
  from assms(1) have v: "areValidKnowledgeIds (rf_knowledgePoints nr) ns"
    and u: "findUnavailableKnowledgeIds (rf_knowledgePoints nr) ns (rf_level nr) = []"
    by (auto simp: recipe_checks_def split: if_splits)
  show "composition_ok ns (recipe_with j nr)"
    unfolding composition_ok_def list_all_iff
  proof
    fix i assume i: "i \<in> set (knowledgePoints (recipe_with j nr))"
    then have i': "i \<in> set (rf_knowledgePoints nr)" by (simp add: recipe_with_def)
    with v obtain n where n: "find (\<lambda>n. node_id n = i) ns = Some n"
      by (auto simp: areValid_find list_all_iff)
    from find_in_set[OF n] assms(3) have wn: "wf_node n" by (simp add: list_all_iff)
    from u i' n have "rf_level nr \<in> set (getUsableLevelsForNode n)"
      by (auto simp: findUnavailableKnowledgeIds_def filter_empty_conv
          nodeMap_get_find[OF assms(4)])
    then have "resolve_spec (node_level n) (node_category n) (rf_level nr) \<noteq> None"
      using usable_resolve[OF wn assms(2)] by simp
    with n show "case find (\<lambda>n. node_id n = i) ns of None \<Rightarrow> False
       | Some u \<Rightarrow> resolve_spec (node_level u) (node_category u)
             (recipe_level (recipe_with j nr)) \<noteq> None"
      by (simp add: recipe_with_def)
  qed
qed

lemma nextId_fresh: "nextId ids \<notin> set ids"
proof
  assume a: "nextId ids \<in> set ids"
  then have "ids \<noteq> []" by auto
  then have n: "nextId ids = Max (set ids) + 1" by (simp add: nextId_def)
  from a have "nextId ids \<le> Max (set ids)" by simp
  with n show False by simp
qed

lemma invI:
  assumes "list_all wf_node ns" and "distinct (map node_id ns)"
      and "list_all wf_recipe rs" and "distinct (map recipe_id rs)"
      and "list_all (composition_ok ns) rs"
  shows "wf_file (Content ns rs) \<and> persisted_ok (Content ns rs)"
  using assms by (simp add: wf_file_def persisted_ok_def)

lemma inv_read:
  assumes "wf_file f" and "persisted_ok f"
  obtains ns rs where "after_read f = Content ns rs"
    and "snd (readStore f) = \<lparr>nodes = ns, recipes = rs\<rparr>"
    and "list_all wf_node ns" and "distinct (map node_id ns)"
    and "list_all wf_recipe rs" and "distinct (map recipe_id rs)"
    and "list_all (composition_ok ns) rs"
proof (cases f)
  case Absent
  show ?thesis
  proof (rule that[of "[]" "[]"])
    show "after_read f = Content [] []" by (simp add: Absent after_read_def)
    show "snd (readStore f) = \<lparr>nodes = [], recipes = []\<rparr>"
      by (simp add: Absent readStore_def)
  qed simp_all
next
  case (Content ns rs)
  with assms have w: "list_all wf_node ns" "distinct (map node_id ns)"
      "list_all wf_recipe rs" "distinct (map recipe_id rs)"
    and ok: "list_all (composition_ok ns) rs"
    by (simp_all add: wf_file_def persisted_ok_def)
  from ok have "filter (\<lambda>r. areValidKnowledgeIds (knowledgePoints r) ns) rs = rs"
    by (simp add: list_all_iff composition_ok_valid)
  with readStore_Content[OF w] have s: "snd (readStore f) = \<lparr>nodes = ns, recipes = rs\<rparr>"
    by (simp add: Content)
  have "after_read f = Content ns rs" by (simp add: Content after_read_def)
  then show ?thesis using s w ok by (rule that)
qed

lemma inv_after_read:
  assumes "wf_file f" and "persisted_ok f"
  shows "wf_file (after_read f) \<and> persisted_ok (after_read f)"
  using assms by (cases f) (simp_all add: after_read_def wf_file_def persisted_ok_def)

lemma composition_ok_cons_node:
  assumes "node_id n \<notin> node_id ` set ns" and "composition_ok ns r"
  shows "composition_ok (n # ns) r"
  unfolding composition_ok_def list_all_iff
proof
  fix i assume "i \<in> set (knowledgePoints r)"
  with assms(2) obtain u where u: "find (\<lambda>n. node_id n = i) ns = Some u"
    and ok: "resolve_spec (node_level u) (node_category u) (recipe_level r) \<noteq> None"
    by (auto simp: composition_ok_def list_all_iff split: option.splits)
  from find_in_set[OF u] assms(1) have "node_id n \<noteq> i" by auto
  with u ok show "case find (\<lambda>n. node_id n = i) (n # ns) of None \<Rightarrow> False
       | Some u \<Rightarrow> resolve_spec (node_level u) (node_category u) (recipe_level r) \<noteq> None"
    by simp
qed

lemma post_node_eq:
  "post_node f nb =
     (if nf_content (normalizeNode nb) = [] \<or> nf_level (normalizeNode nb) = []
         \<or> nf_category (normalizeNode nb) = []
      then (f, Response 400 (Message node_required))
      else (Content (node_with (nextId (map node_id (nodes (snd (readStore f)))))
                       (normalizeNode nb) # nodes (snd (readStore f)))
              (recipes (snd (readStore f))),
            Response 201 (NodeJson
              (node_with (nextId (map node_id (nodes (snd (readStore f)))))
                 (normalizeNode nb)))))"
  by (simp add: post_node_def readNodeList_eq writeNodeList_eq Let_def)

lemma node_with_wf:
  assumes "nf_content (normalizeNode nb) \<noteq> []" and "nf_level (normalizeNode nb) \<noteq> []"
      and "nf_category (normalizeNode nb) \<noteq> []"
  shows "wf_node (node_with j (normalizeNode nb))"
  using assms normalizeLevel_valid[of "nb_level nb"] normalizeCategory_valid[of "nb_category nb"]
  by (simp add: wf_node_def node_with_def normalizeNode_def trim_toSafeString)

lemma post_node_inv:
  assumes "wf_file f" and "persisted_ok f"
  shows "wf_file (fst (post_node f nb)) \<and> persisted_ok (fst (post_node f nb))"
proof (cases "nf_content (normalizeNode nb) = [] \<or> nf_level (normalizeNode nb) = []
         \<or> nf_category (normalizeNode nb) = []")
  case True
  with assms show ?thesis by (simp add: post_node_eq)
next
  case False
  from assms obtain ns rs where st: "snd (readStore f) = \<lparr>nodes = ns, recipes = rs\<rparr>"
    and w: "list_all wf_node ns" "distinct (map node_id ns)"
      "list_all wf_recipe rs" "distinct (map recipe_id rs)"
    and ok: "list_all (composition_ok ns) rs"
    by (rule inv_read)
  let ?n = "node_with (nextId (map node_id ns)) (normalizeNode nb)"
  have id: "node_id ?n = nextId (map node_id ns)" by (simp add: node_with_def)
  from False have wn: "wf_node ?n" by (intro node_with_wf) simp_all
  from nextId_fresh[of "map node_id ns"] id have fresh: "node_id ?n \<notin> node_id ` set ns"
    by simp
  have "wf_file (Content (?n # ns) rs) \<and> persisted_ok (Content (?n # ns) rs)"
  proof (rule invI)
    show "list_all wf_node (?n # ns)" using wn w(1) by simp
    show "distinct (map node_id (?n # ns))" using fresh w(2) by simp
    show "list_all (composition_ok (?n # ns)) rs"
      using ok composition_ok_cons_node[OF fresh] by (simp add: list_all_iff)
  qed (fact w)+
  with False show ?thesis by (simp add: post_node_eq st)
qed

lemma post_recipe_inv:
  assumes "wf_file f" and "persisted_ok f"
  shows "wf_file (fst (post_recipe f b)) \<and> persisted_ok (fst (post_recipe f b))"
proof -
  from assms obtain ns rs where st: "snd (readStore f) = \<lparr>nodes = ns, recipes = rs\<rparr>"
    and w: "list_all wf_node ns" "distinct (map node_id ns)"
      "list_all wf_recipe rs" "distinct (map recipe_id rs)"
    and ok: "list_all (composition_ok ns) rs"
    by (rule inv_read)
  show ?thesis
  proof (cases "recipe_checks ns (normalizeRecipe b)")
    case (Some m)
    with inv_after_read[OF assms] show ?thesis by (simp add: post_recipe_fst st)
  next
    case None
    let ?r = "recipe_with (nextId (map recipe_id rs)) (normalizeRecipe b)"
    have id: "recipe_id ?r = nextId (map recipe_id rs)" by (simp add: recipe_with_def)
    from normalizeRecipe_wf[OF None] have wr: "wf_recipe ?r" .
    then have lv: "rf_level (normalizeRecipe b) \<in> set LEVELS"
      by (simp add: wf_recipe_def recipe_with_def)
    from nextId_fresh[of "map recipe_id rs"] id have fresh: "recipe_id ?r \<notin> recipe_id ` set rs"
      by simp
    have "wf_file (Content ns (?r # rs)) \<and> persisted_ok (Content ns (?r # rs))"
    proof (rule invI)
      show "list_all wf_recipe (?r # rs)" using wr w(3) by simp
      show "distinct (map recipe_id (?r # rs))" using fresh w(4) by simp
      show "list_all (composition_ok ns) (?r # rs)"
        using ok checks_give_composition_ok[OF None lv w(1,2)] by simp
    qed (fact w)+
    with None show ?thesis by (simp add: post_recipe_fst st)
  qed
qed

lemma update_same_id:
  "(map f xs)[k := f (xs ! k)] = map f xs"
proof (cases "k < length xs")
  case True
  then have "f (xs ! k) = map f xs ! k" by simp
  then show ?thesis by (simp only: list_update_id)
next
  case False
  then show ?thesis by (simp add: list_update_beyond)
qed

lemma patch_recipe_inv:
  assumes "wf_file f" and "persisted_ok f"
  shows "wf_file (fst (patch_recipe f idParam b)) \<and> persisted_ok (fst (patch_recipe f idParam b))"
proof (cases "parseParamId (JStr idParam)")
  case None
  with assms show ?thesis by (simp add: patch_recipe_bad_id)
next
  case (Some i)
  from assms obtain ns rs where st: "snd (readStore f) = \<lparr>nodes = ns, recipes = rs\<rparr>"
    and w: "list_all wf_node ns" "distinct (map node_id ns)"
      "list_all wf_recipe rs" "distinct (map recipe_id rs)"
    and ok: "list_all (composition_ok ns) rs"
    by (rule inv_read)
  define k where "k = findIndex (\<lambda>r. recipe_id r = i) rs"
  show ?thesis
  proof (cases "k = -1")
    case True
    with Some inv_after_read[OF assms] show ?thesis
      by (simp add: patch_recipe_not_found st k_def)
  next
    case False
    define old where "old = rs ! nat k"
    define nr where "nr = normalizeRecipe (patched_body old b)"
    have k: "findIndex (\<lambda>r. recipe_id r = i) (recipes (snd (readStore f))) = k"
      by (simp add: st k_def)
    have o: "old = recipes (snd (readStore f)) ! nat k" by (simp add: st old_def)
    note fs = patch_recipe_fst[OF Some k False o, of b, folded nr_def]
    show ?thesis
    proof (cases "recipe_checks ns nr")
      case (Some m)
      with inv_after_read[OF assms] show ?thesis by (simp add: fs st)
    next
      case None
      let ?u = "recipe_with (recipe_id old) nr"
      from None have wu: "wf_recipe ?u"
        unfolding nr_def by (rule normalizeRecipe_wf)
      then have lv: "rf_level nr \<in> set LEVELS"
        by (simp add: wf_recipe_def recipe_with_def)
      have cu: "composition_ok ns ?u"
        by (rule checks_give_composition_ok[OF None lv w(1,2)])
      have sub: "set (rs[nat k := ?u]) \<subseteq> insert ?u (set rs)"
        by (rule set_update_subset_insert)
      have "wf_file (Content ns (rs[nat k := ?u])) \<and> persisted_ok (Content ns (rs[nat k := ?u]))"
      proof (rule invI)
        show "list_all wf_recipe (rs[nat k := ?u])"
          using sub wu w(3) by (auto simp: list_all_iff)
        show "list_all (composition_ok ns) (rs[nat k := ?u])"
          using sub cu ok by (auto simp: list_all_iff)
        have "map recipe_id (rs[nat k := ?u]) = (map recipe_id rs)[nat k := recipe_id (rs ! nat k)]"
          by (simp add: map_update recipe_with_def old_def)
        then show "distinct (map recipe_id (rs[nat k := ?u]))"
          using w(4) by (simp add: update_same_id)
      qed (fact w)+
      with None show ?thesis by (simp add: fs st)
    qed
  qed
qed

lemma delete_recipe_fst:
  "fst (delete_recipe f idParam) = f
   \<or> fst (delete_recipe f idParam) = after_read f
   \<or> (\<exists>i. fst (delete_recipe f idParam) =
        Content (nodes (snd (readStore f)))
          (filter (\<lambda>entry. recipe_id entry \<noteq> i) (recipes (snd (readStore f)))))"
  by (auto simp: delete_recipe_def readRecipeList_eq writeRecipeList_eq Let_def
      split: option.splits)

lemma delete_recipe_inv:
  assumes "wf_file f" and "persisted_ok f"
  shows "wf_file (fst (delete_recipe f idParam)) \<and> persisted_ok (fst (delete_recipe f idParam))"
proof -
  from assms obtain ns rs where st: "snd (readStore f) = \<lparr>nodes = ns, recipes = rs\<rparr>"
    and w: "list_all wf_node ns" "distinct (map node_id ns)"
      "list_all wf_recipe rs" "distinct (map recipe_id rs)"
    and ok: "list_all (composition_ok ns) rs"
    by (rule inv_read)
  have del: "wf_file (Content ns (filter (\<lambda>entry. recipe_id entry \<noteq> i) rs))
      \<and> persisted_ok (Content ns (filter (\<lambda>entry. recipe_id entry \<noteq> i) rs))" for i
  proof (rule invI)
    show "list_all wf_recipe (filter (\<lambda>entry. recipe_id entry \<noteq> i) rs)"
      using w(3) by (simp add: list_all_iff)
    show "distinct (map recipe_id (filter (\<lambda>entry. recipe_id entry \<noteq> i) rs))"
      using w(4) by (rule distinct_map_filter)
    show "list_all (composition_ok ns) (filter (\<lambda>entry. recipe_id entry \<noteq> i) rs)"
      using ok by (simp add: list_all_iff)
  qed (fact w)+
  from delete_recipe_fst[of f idParam] assms inv_after_read[OF assms] del
  show ?thesis by (auto simp: st)
qed

lemma step_inv:
  assumes "wf_file f" and "persisted_ok f" and "\<not> rewrites_unit op"
  shows "wf_file (apply_operation f op) \<and> persisted_ok (apply_operation f op)"
  using assms
  by (cases op)
    (simp_all add: post_node_inv post_recipe_inv patch_recipe_inv delete_recipe_inv)

text \<open>
  C2 (as amended). From a data file in the form the handlers write, whose compositions
  all reference existing units usable at their level, every sequence of composition
  creations, updates and deletions and of knowledge-unit creations leaves a data file of
  that form whose compositions all reference existing units usable at their level.
  Updates and deletions of knowledge units are excluded: they do not re-validate.
\<close>

theorem revalidating_operations_keep_compositions_ok:
  assumes "wf_file f" and "persisted_ok f"
      and "list_all (\<lambda>op. \<not> rewrites_unit op) ops"
  shows "wf_file (run f ops) \<and> persisted_ok (run f ops)"
  using assms unfolding run_def
proof (induction ops arbitrary: f)
  case Nil
  then show ?case by simp
next
  case (Cons op ops)
  from Cons.prems have "wf_file (apply_operation f op) \<and> persisted_ok (apply_operation f op)"
    by (intro step_inv) simp_all
  with Cons.prems show ?case by (simp add: Cons.IH)
qed

theorem revalidating_operations_keep_compositions_ok_witness:
  "run Absent
     [PostNode \<lparr>nb_content = JStr (js ''c''), nb_level = JStr (js ''single''), nb_category = JStr (js ''form'')\<rparr>,
      PostRecipe \<lparr>rb_knowledgePoints = JArr [JInt 0], rb_procedure = JStr (js ''p''),
        rb_level = JStr (js ''album''), rb_description = JStr (js ''d'')\<rparr>]
   = Content [\<lparr>node_id = 0, node_content = js ''c'', node_level = js ''single'',
                node_category = js ''form''\<rparr>]
       [\<lparr>recipe_id = 0, knowledgePoints = [0], procedure = js ''p'',
         recipe_level = js ''album'', description = js ''d''\<rparr>]
   \<and> persisted_ok (run Absent
     [PostNode \<lparr>nb_content = JStr (js ''c''), nb_level = JStr (js ''single''), nb_category = JStr (js ''form'')\<rparr>,
      PostRecipe \<lparr>rb_knowledgePoints = JArr [JInt 0], rb_procedure = JStr (js ''p''),
        rb_level = JStr (js ''album''), rb_description = JStr (js ''d'')\<rparr>])"
proof -
  let ?ops = "[PostNode \<lparr>nb_content = JStr (js ''c''), nb_level = JStr (js ''single''),
        nb_category = JStr (js ''form'')\<rparr>,
      PostRecipe \<lparr>rb_knowledgePoints = JArr [JInt 0], rb_procedure = JStr (js ''p''),
        rb_level = JStr (js ''album''), rb_description = JStr (js ''d'')\<rparr>]"
  have 1: "wf_file Absent" "persisted_ok Absent" by (simp_all add: wf_file_def persisted_ok_def)
  have 2: "list_all (\<lambda>op. \<not> rewrites_unit op) ?ops" by simp
  have 3: "run Absent ?ops = Content [\<lparr>node_id = 0, node_content = js ''c'',
        node_level = js ''single'', node_category = js ''form''\<rparr>]
       [\<lparr>recipe_id = 0, knowledgePoints = [0], procedure = js ''p'',
         recipe_level = js ''album'', description = js ''d''\<rparr>]"
    by code_simp
  from revalidating_operations_keep_compositions_ok[OF 1 2] have "persisted_ok (run Absent ?ops)" by (rule conjunct2)
  with 3 show ?thesis by (rule conjI)
qed

text \<open>
  The claim as stated fails: after a unit is moved to another level, and after a unit is
  deleted, the data file holds a composition that violates the invariant.
\<close>

theorem unit_rewrites_break_compositions:
  "run Absent
     [PostNode \<lparr>nb_content = JStr (js ''c''), nb_level = JStr (js ''single''), nb_category = JStr (js ''form'')\<rparr>,
      PostRecipe \<lparr>rb_knowledgePoints = JArr [JInt 0], rb_procedure = JStr (js ''p''),
        rb_level = JStr (js ''single''), rb_description = JStr (js ''d'')\<rparr>,
      PatchNode (js ''0'') \<lparr>nb_content = JUndefined, nb_level = JStr (js ''timbre''),
        nb_category = JUndefined\<rparr>]
   = Content [\<lparr>node_id = 0, node_content = js ''c'', node_level = js ''timbre'',
                node_category = js ''form''\<rparr>]
       [\<lparr>recipe_id = 0, knowledgePoints = [0], procedure = js ''p'',
         recipe_level = js ''single'', description = js ''d''\<rparr>]
   \<and> \<not> persisted_ok (run Absent
     [PostNode \<lparr>nb_content = JStr (js ''c''), nb_level = JStr (js ''single''), nb_category = JStr (js ''form'')\<rparr>,
      PostRecipe \<lparr>rb_knowledgePoints = JArr [JInt 0], rb_procedure = JStr (js ''p''),
        rb_level = JStr (js ''single''), rb_description = JStr (js ''d'')\<rparr>,
      PatchNode (js ''0'') \<lparr>nb_content = JUndefined, nb_level = JStr (js ''timbre''),
        nb_category = JUndefined\<rparr>])
   \<and> run Absent
     [PostNode \<lparr>nb_content = JStr (js ''c''), nb_level = JStr (js ''single''), nb_category = JStr (js ''form'')\<rparr>,
      PostRecipe \<lparr>rb_knowledgePoints = JArr [JInt 0], rb_procedure = JStr (js ''p''),
        rb_level = JStr (js ''single''), rb_description = JStr (js ''d'')\<rparr>,
      DeleteNode (js ''0'')]
   = Content []
       [\<lparr>recipe_id = 0, knowledgePoints = [0], procedure = js ''p'',
         recipe_level = js ''single'', description = js ''d''\<rparr>]
   \<and> \<not> persisted_ok (run Absent
     [PostNode \<lparr>nb_content = JStr (js ''c''), nb_level = JStr (js ''single''), nb_category = JStr (js ''form'')\<rparr>,
      PostRecipe \<lparr>rb_knowledgePoints = JArr [JInt 0], rb_procedure = JStr (js ''p''),
        rb_level = JStr (js ''single''), rb_description = JStr (js ''d'')\<rparr>,
      DeleteNode (js ''0'')])"
  by code_simp

section \<open>Values of the enums and id tokens\<close>

lemma lower_char_iff:
  "\<not> (65 \<le> d \<and> d \<le> 90) \<Longrightarrow>
   lower_char c = d \<longleftrightarrow> (c = d \<or> (65 \<le> c \<and> c \<le> 90 \<and> d = c + 32))"
  by (auto simp: lower_char_def)

lemma lower_iff_same:
  "list_all (\<lambda>d. \<not> (65 \<le> d \<and> d \<le> 90)) w \<Longrightarrow>
   toLowerCase s = w \<longleftrightarrow> same_ignoring_case s w"
proof (induction w arbitrary: s)
  case Nil
  then show ?case by (simp add: toLowerCase_def same_ignoring_case_def)
next
  case (Cons d w)
  then have d: "\<not> (65 \<le> d \<and> d \<le> 90)"
    and ih: "\<And>s. toLowerCase s = w \<longleftrightarrow> same_ignoring_case s w"
    by simp_all
  show ?case
  proof (cases s)
    case Nil
    then show ?thesis by (simp add: toLowerCase_def same_ignoring_case_def)
  next
    case (Cons c s')
    from ih[of s'] lower_char_iff[OF d, of c] show ?thesis
      by (simp add: Cons toLowerCase_def same_ignoring_case_def)
  qed
qed

lemma enum_words:
  "w \<in> set LEVELS \<or> w \<in> set CATEGORY \<Longrightarrow>
   w \<noteq> [] \<and> list_all (\<lambda>c. \<not> is_space c) w \<and> list_all (\<lambda>d. \<not> (65 \<le> d \<and> d \<le> 90)) w"
  by (auto simp: LEVELS_def CATEGORY_def is_space_def js_def)

lemma trim_decompose:
  "\<exists>a b. x = a @ trim x @ b \<and> list_all is_space a \<and> list_all is_space b"
proof -
  let ?y = "dropWhile is_space x"
  have y: "?y = trim x @ rev (takeWhile is_space (rev ?y))"
    unfolding trim_def
    by (simp only: rev_append[symmetric] takeWhile_dropWhile_id rev_rev_ident)
  have "x = takeWhile is_space x @ ?y" by simp
  with y have "x = takeWhile is_space x @ trim x @ rev (takeWhile is_space (rev ?y))"
    by simp
  moreover have "list_all is_space (takeWhile is_space x)"
    by (auto simp: list_all_iff dest: set_takeWhileD)
  moreover have "list_all is_space (rev (takeWhile is_space (rev ?y)))"
    by (auto simp: list_all_iff dest: set_takeWhileD)
  ultimately show ?thesis by blast
qed

lemma enum_value_iff:
  assumes "\<And>w. w \<in> set E \<Longrightarrow>
     w \<noteq> [] \<and> list_all (\<lambda>c. \<not> is_space c) w \<and> list_all (\<lambda>d. \<not> (65 \<le> d \<and> d \<le> 90)) w"
  shows "enum_value E v \<longleftrightarrow> toSafeLower v \<in> set E"
proof
  assume "enum_value E v"
  then obtain a s b w where v: "v = JStr (a @ s @ b)" and sp: "list_all is_space a"
      "list_all is_space b" and w: "w \<in> set E" and sw: "same_ignoring_case s w"
    by (auto simp: enum_value_def)
  from assms[OF w] sw have "toLowerCase s = w" by (simp add: lower_iff_same)
  with assms[OF w] sp have "toSafeLower (JStr (a @ s @ b)) = w"
    by (intro padded_lower) simp_all
  with v w show "toSafeLower v \<in> set E" by simp
next
  assume in_E: "toSafeLower v \<in> set E"
  with assms have ne: "toSafeLower v \<noteq> []" by blast
  then obtain x where v: "v = JStr x"
    by (cases v) (simp_all add: toSafeLower_def toSafeString_def toLowerCase_def)
  from trim_decompose[of x] obtain a b where x: "x = a @ trim x @ b"
    and sp: "list_all is_space a" "list_all is_space b" by blast
  let ?w = "toLowerCase (trim x)"
  from in_E v have w: "?w \<in> set E" by (simp add: toSafeLower_def toSafeString_def)
  with assms have "same_ignoring_case (trim x) ?w" by (simp add: lower_iff_same[symmetric])
  with x sp w v show "enum_value E v"
    unfolding enum_value_def by blast
qed

lemma enum_value_level: "enum_value LEVELS v \<longleftrightarrow> normalizeLevel v \<noteq> []"
proof -
  have "enum_value LEVELS v \<longleftrightarrow> toSafeLower v \<in> set LEVELS"
    by (rule enum_value_iff) (use enum_words in blast)
  moreover have "toSafeLower v \<in> set LEVELS \<Longrightarrow> toSafeLower v \<noteq> []"
    using enum_words[of "toSafeLower v"] by simp
  ultimately show ?thesis by (auto simp: normalizeLevel_def)
qed

lemma enum_value_category: "enum_value CATEGORY v \<longleftrightarrow> normalizeCategory v \<noteq> []"
proof -
  have "enum_value CATEGORY v \<longleftrightarrow> toSafeLower v \<in> set CATEGORY"
    by (rule enum_value_iff) (use enum_words in blast)
  moreover have "toSafeLower v \<in> set CATEGORY \<Longrightarrow> toSafeLower v \<noteq> []"
    using enum_words[of "toSafeLower v"] by simp
  ultimately show ?thesis by (auto simp: normalizeCategory_def)
qed

lemma normalize_padded:
  assumes "list_all is_space a" and "list_all is_space b" and "same_ignoring_case s w"
  shows "w \<in> set LEVELS \<Longrightarrow> normalizeLevel (JStr (a @ s @ b)) = w"
    and "w \<in> set CATEGORY \<Longrightarrow> normalizeCategory (JStr (a @ s @ b)) = w"
proof -
  { assume w: "w \<in> set LEVELS \<or> w \<in> set CATEGORY"
    from enum_words[OF w] assms(3) have "toLowerCase s = w" by (simp add: lower_iff_same)
    with enum_words[OF w] assms(1,2) have "toSafeLower (JStr (a @ s @ b)) = w"
      by (intro padded_lower) simp_all }
  note l = this
  show "w \<in> set LEVELS \<Longrightarrow> normalizeLevel (JStr (a @ s @ b)) = w"
    using l by (simp add: normalizeLevel_def)
  show "w \<in> set CATEGORY \<Longrightarrow> normalizeCategory (JStr (a @ s @ b)) = w"
    using l by (simp add: normalizeCategory_def)
qed

lemma id_token_iff:
  "normalizeNumericId v \<noteq> None \<longleftrightarrow>
     (\<exists>n. v = JInt (int n))
     \<or> (\<exists>a ds b. v = JStr (a @ ds @ b) \<and> list_all is_space a \<and> list_all is_space b
           \<and> all_digits ds)"
proof
  assume a: "normalizeNumericId v \<noteq> None"
  show "(\<exists>n. v = JInt (int n))
     \<or> (\<exists>a ds b. v = JStr (a @ ds @ b) \<and> list_all is_space a \<and> list_all is_space b
           \<and> all_digits ds)"
  proof (cases v)
    case (JInt i)
    with a have "0 \<le> i"
      by (auto simp: normalizeNumericId_def toSafeString_def all_digits_def split: if_splits)
    then have "i = int (nat i)" by simp
    with JInt show ?thesis by blast
  next
    case (JStr x)
    with a have "all_digits (trim x)"
      by (auto simp: normalizeNumericId_def toSafeString_def Let_def split: if_splits)
    with trim_decompose[of x] JStr show ?thesis by blast
  qed (use a in \<open>simp_all add: normalizeNumericId_def toSafeString_def all_digits_def\<close>)
next
  assume "(\<exists>n. v = JInt (int n))
     \<or> (\<exists>a ds b. v = JStr (a @ ds @ b) \<and> list_all is_space a \<and> list_all is_space b
           \<and> all_digits ds)"
  then show "normalizeNumericId v \<noteq> None"
    by (auto simp: normalizeNumericId_digits)
qed

text \<open>
  C10 (as amended). Level and category values are trimmed and lower-cased before they
  are matched against the enums: a value is accepted exactly when it is a string holding
  a word of the enum in any letter case with white space before and after it, and it is
  then normalised to that word. A string of decimal digits, with white space before and
  after it or not, is an id: the integer it denotes when that is below \<open>2 ^ 53\<close>, so
  that the decimal rendering of such an \<open>n\<close> and the number \<open>n\<close> are the same id, and in
  general the double nearest to that integer. \<open>0\<close> is an id.
\<close>

theorem input_is_normalised:
  "(enum_value LEVELS v \<longleftrightarrow> normalizeLevel v \<noteq> [])
   \<and> (enum_value CATEGORY v \<longleftrightarrow> normalizeCategory v \<noteq> [])
   \<and> (list_all is_space a \<and> list_all is_space b \<and> same_ignoring_case s w \<and> w \<in> set LEVELS
      \<longrightarrow> normalizeLevel (JStr (a @ s @ b)) = w)
   \<and> (list_all is_space a \<and> list_all is_space b \<and> same_ignoring_case s w
        \<and> w \<in> set CATEGORY
      \<longrightarrow> normalizeCategory (JStr (a @ s @ b)) = w)
   \<and> (list_all is_space a \<and> list_all is_space b \<and> all_digits ds \<and> decimal ds < 2 ^ 53
      \<longrightarrow> normalizeNumericId (JStr (a @ ds @ b)) = Some (decimal ds))
   \<and> (list_all is_space a \<and> list_all is_space b \<and> all_digits ds
      \<longrightarrow> normalizeNumericId (JStr (a @ ds @ b)) = Some (to_double (decimal ds)))
   \<and> decimal (String_of n) = n \<and> all_digits (String_of n)
   \<and> (n < 2 ^ 53
      \<longrightarrow> normalizeNumericId (JStr (String_of n)) = normalizeNumericId (JInt (int n)))
   \<and> normalizeNumericId (JInt (int n)) = Some n
   \<and> normalizeNumericId (JInt 0) = Some 0"
proof -
  have d: "all_digits (String_of n)" "decimal (String_of n) = n"
    using String_of_props[of n] by (simp_all add: all_digits_def)
  have r: "list_all is_space a \<and> list_all is_space b \<and> all_digits ds
      \<longrightarrow> normalizeNumericId (JStr (a @ ds @ b)) = Some (to_double (decimal ds))"
    by (simp add: normalizeNumericId_digits Number_of_def)
  have e: "list_all is_space a \<and> list_all is_space b \<and> all_digits ds \<and> decimal ds < 2 ^ 53
      \<longrightarrow> normalizeNumericId (JStr (a @ ds @ b)) = Some (decimal ds)"
    by (simp add: normalizeNumericId_digits Number_of_def to_double_small)
  have t: "n < 2 ^ 53
      \<longrightarrow> normalizeNumericId (JStr (String_of n)) = normalizeNumericId (JInt (int n))"
    using normalizeNumericId_digits[OF d(1), of "[]" "[]"]
    by (simp add: Number_of_def d(2) to_double_small)
  have z: "normalizeNumericId (JInt 0) = Some 0" by (simp add: normalizeNumericId_def)
  have l: "list_all is_space a \<and> list_all is_space b \<and> same_ignoring_case s w
        \<and> w \<in> set LEVELS \<longrightarrow> normalizeLevel (JStr (a @ s @ b)) = w"
    by (simp add: normalize_padded(1))
  have c: "list_all is_space a \<and> list_all is_space b \<and> same_ignoring_case s w
        \<and> w \<in> set CATEGORY \<longrightarrow> normalizeCategory (JStr (a @ s @ b)) = w"
    by (simp add: normalize_padded(2))
  from enum_value_level[of v] enum_value_category[of v] l c e r d t z show ?thesis
    by (simp only: normalizeNumericId_nat simp_thms)
qed

theorem input_is_normalised_witness:
  "normalizeCategory (JStr (js '' FORM '')) = js ''form''
   \<and> normalizeLevel (JStr ([0xA0, 0xFEFF] @ js ''AlbUm'' @ [0x2028, 0x0A])) = js ''album''
   \<and> normalizeNumericId (JStr (js '' 5 '')) = Some 5
   \<and> normalizeNumericId (JStr (String_of 5)) = normalizeNumericId (JInt 5)"
proof -
  have 1: "list_all is_space (js '' '')" "list_all is_space [0xA0, 0xFEFF]"
    "list_all is_space [0x2028, 0x0A]"  by code_simp+
  have 2: "same_ignoring_case (js ''FORM'') (js ''form'')"
    "same_ignoring_case (js ''AlbUm'') (js ''album'')" by code_simp+
  have 3: "js ''form'' \<in> set CATEGORY" "js ''album'' \<in> set LEVELS" by code_simp+
  have 4: "all_digits (js ''5'')" "decimal (js ''5'') = 5" "(5::nat) < 2 ^ 53"
    "decimal (js ''5'') < 2 ^ 53" by code_simp+
  have j: "js '' FORM '' = js '' '' @ js ''FORM'' @ js '' ''"
    "js '' 5 '' = js '' '' @ js ''5'' @ js '' ''" by simp_all
  from input_is_normalised[where a = "js '' ''" and b = "js '' ''" and s = "js ''FORM''"
      and w = "js ''form''" and ds = "js ''5''" and n = 5] 1 2 3 4
  have a: "normalizeCategory (JStr (js '' '' @ js ''FORM'' @ js '' '')) = js ''form''"
    and b: "normalizeNumericId (JStr (js '' '' @ js ''5'' @ js '' '')) = Some 5"
    and c: "normalizeNumericId (JStr (String_of 5)) = normalizeNumericId (JInt (int 5))"
    by simp_all
  from input_is_normalised[where a = "[0xA0, 0xFEFF]" and b = "[0x2028, 0x0A]"
      and s = "js ''AlbUm''" and w = "js ''album''"] 1 2 3
  have d: "normalizeLevel (JStr ([0xA0, 0xFEFF] @ js ''AlbUm'' @ [0x2028, 0x0A])) = js ''album''"
    by simp
  from a b c d show ?thesis by (simp only: j) simp
qed

text \<open>
  The claim as stated fails: the digit string 9007199254740993 is not the id
  9007199254740993 but the id 9007199254740992, as the digit string 9007199254740992 is.
\<close>

theorem large_digit_strings_are_rounded:
  "decimal (js ''9007199254740993'') = 9007199254740993
   \<and> normalizeNumericId (JStr (js ''9007199254740993'')) = Some 9007199254740992
   \<and> normalizeNumericId (JStr (js ''9007199254740993''))
     = normalizeNumericId (JStr (js ''9007199254740992''))"
proof -
  have t: "trim (js ''9007199254740993'') = js ''9007199254740993''"
    "trim (js ''9007199254740992'') = js ''9007199254740992''" by code_simp+
  have a: "all_digits (js ''9007199254740993'')" "all_digits (js ''9007199254740992'')"
    by code_simp+
  have d: "decimal (js ''9007199254740993'') = 9007199254740993"
    "decimal (js ''9007199254740992'') = 9007199254740992"
    by (simp_all add: decimal_def js_def)
  have b: "bit_length 9007199254740993 = 54" "bit_length 9007199254740992 = 54"
    by (simp_all add: bit_length.simps)
  have r: "to_double 9007199254740993 = 9007199254740992"
    "to_double 9007199254740992 = 9007199254740992"
    by (simp_all add: to_double_def b Let_def)
  have n: "normalizeNumericId (JStr (js ''9007199254740993'')) = Some 9007199254740992"
    "normalizeNumericId (JStr (js ''9007199254740992'')) = Some 9007199254740992"
    by (simp_all add: normalizeNumericId_def toSafeString_def t a Number_of_def d r)
  from d(1) n show ?thesis by (simp only: simp_thms)
qed

section \<open>Updates are validated as creations\<close>

lemma composition_ok_checks:
  assumes "list_all wf_node ns" and "distinct (map node_id ns)"
      and "rf_level nr \<in> set LEVELS" and "composition_ok ns (recipe_with j nr)"
  shows "areValidKnowledgeIds (rf_knowledgePoints nr) ns"
    and "findUnavailableKnowledgeIds (rf_knowledgePoints nr) ns (rf_level nr) = []"
proof -
  from composition_ok_valid[OF assms(4)]
  show "areValidKnowledgeIds (rf_knowledgePoints nr) ns" by (simp add: recipe_with_def)
  { fix i assume "i \<in> set (rf_knowledgePoints nr)"
    with assms(4) obtain u where u: "find (\<lambda>n. node_id n = i) ns = Some u"
      and r: "resolve_spec (node_level u) (node_category u) (rf_level nr) \<noteq> None"
      by (auto simp: composition_ok_def recipe_with_def list_all_iff split: option.splits)
    from find_in_set[OF u] assms(1) have "wf_node u" by (simp add: list_all_iff)
    from usable_resolve[OF this assms(3)] r u
    have "\<not> (case nodeMap_get ns i of None \<Rightarrow> False
          | Some n \<Rightarrow> rf_level nr \<notin> set (getUsableLevelsForNode n))"
      by (simp add: nodeMap_get_find[OF assms(2)]) }
  then show "findUnavailableKnowledgeIds (rf_knowledgePoints nr) ns (rf_level nr) = []"
    by (simp add: findUnavailableKnowledgeIds_def filter_empty_conv)
qed

lemma recipe_checks_None_iff:
  assumes "list_all wf_node ns" and "distinct (map node_id ns)"
  shows "recipe_checks ns (normalizeRecipe c) = None \<longleftrightarrow>
     normalizeKnowledgePoints (rb_knowledgePoints c) \<noteq> []
     \<and> toSafeString (rb_procedure c) \<noteq> []
     \<and> enum_value LEVELS (rb_level c)
     \<and> toSafeString (rb_description c) \<noteq> []
     \<and> list_all (\<lambda>j. case find (\<lambda>n. node_id n = j) ns of
                        None \<Rightarrow> False
                      | Some u \<Rightarrow> resolve_spec (node_level u) (node_category u)
                                  (normalizeLevel (rb_level c)) \<noteq> None)
         (normalizeKnowledgePoints (rb_knowledgePoints c))"
    (is "?l \<longleftrightarrow> ?r")
proof
  assume l: ?l
  then have ne: "normalizeKnowledgePoints (rb_knowledgePoints c) \<noteq> []"
      "toSafeString (rb_procedure c) \<noteq> []" "normalizeLevel (rb_level c) \<noteq> []"
      "toSafeString (rb_description c) \<noteq> []"
    by (auto simp: recipe_checks_def normalizeRecipe_def split: if_splits)
  with normalizeLevel_valid[of "rb_level c"]
  have lv: "rf_level (normalizeRecipe c) \<in> set LEVELS" by (simp add: normalizeRecipe_def)
  from checks_give_composition_ok[OF l lv assms, of 0] ne show ?r
    by (simp add: composition_ok_def recipe_with_def normalizeRecipe_def enum_value_level
        cong: option.case_cong)
next
  assume r: ?r
  then have lv0: "normalizeLevel (rb_level c) \<noteq> []" by (simp add: enum_value_level)
  with normalizeLevel_valid[of "rb_level c"]
  have lv: "rf_level (normalizeRecipe c) \<in> set LEVELS" by (simp add: normalizeRecipe_def)
  from r have "composition_ok ns (recipe_with 0 (normalizeRecipe c))"
    by (simp add: composition_ok_def recipe_with_def normalizeRecipe_def
        cong: option.case_cong)
  from composition_ok_checks[OF assms lv this] r lv0 show ?l
    by (simp add: recipe_checks_def normalizeRecipe_def)
qed

lemma patched_body_explicit:
  "patched_body old b =
     \<lparr>rb_knowledgePoints =
        (if rb_knowledgePoints b = JUndefined \<or> rb_knowledgePoints b = JNull
         then json_of_ids (knowledgePoints old) else rb_knowledgePoints b),
      rb_procedure =
        (if rb_procedure b = JUndefined \<or> rb_procedure b = JNull
         then JStr (procedure old) else rb_procedure b),
      rb_level =
        (if rb_level b = JUndefined \<or> rb_level b = JNull
         then JStr (recipe_level old) else rb_level b),
      rb_description =
        (if rb_description b = JUndefined \<or> rb_description b = JNull
         then JStr (description old) else rb_description b)\<rparr>"
  by (simp add: patched_body_def coalesce_def)

text \<open>
  C6. An update of an existing composition is validated on the request's fields, with
  the stored value for each field the request leaves out or gives as \<open>null\<close>, exactly as
  a creation with those fields is: the update is rejected with a message exactly when
  that creation is rejected with that message, and succeeds exactly when it succeeds,
  which is when the ids, the procedure and the description are not empty, the level is
  a value of the enum, and every id is the id of a unit that the resolver of the
  specification accepts at that level. A successful update stores the record made of the
  normalised fields. An update that leaves the knowledge points out validates the stored
  ids at the level it gives.
\<close>

theorem update_validates_as_create:
  assumes "parseParamId (JStr idParam) = Some i"
      and "findIndex (\<lambda>r. recipe_id r = i) (recipes (snd (readStore f))) = k"
      and "k \<noteq> -1"
      and "old = recipes (snd (readStore f)) ! nat k"
      and "c =
        \<lparr>rb_knowledgePoints =
           (if rb_knowledgePoints b = JUndefined \<or> rb_knowledgePoints b = JNull
            then json_of_ids (knowledgePoints old) else rb_knowledgePoints b),
         rb_procedure =
           (if rb_procedure b = JUndefined \<or> rb_procedure b = JNull
            then JStr (procedure old) else rb_procedure b),
         rb_level =
           (if rb_level b = JUndefined \<or> rb_level b = JNull
            then JStr (recipe_level old) else rb_level b),
         rb_description =
           (if rb_description b = JUndefined \<or> rb_description b = JNull
            then JStr (description old) else rb_description b)\<rparr>"
  shows "(snd (patch_recipe f idParam b) = Response 400 (Message m)
            \<longleftrightarrow> snd (post_recipe f c) = Response 400 (Message m))
       \<and> (resp_status (snd (patch_recipe f idParam b)) = 200
            \<longleftrightarrow> resp_status (snd (post_recipe f c)) = 201)
       \<and> (resp_status (snd (patch_recipe f idParam b)) = 200 \<longleftrightarrow>
            normalizeKnowledgePoints (rb_knowledgePoints c) \<noteq> []
            \<and> toSafeString (rb_procedure c) \<noteq> []
            \<and> enum_value LEVELS (rb_level c)
            \<and> toSafeString (rb_description c) \<noteq> []
            \<and> list_all (\<lambda>j. case find (\<lambda>n. node_id n = j) (nodes (snd (readStore f))) of
                               None \<Rightarrow> False
                             | Some u \<Rightarrow> resolve_spec (node_level u) (node_category u)
                                         (normalizeLevel (rb_level c)) \<noteq> None)
                (normalizeKnowledgePoints (rb_knowledgePoints c)))
       \<and> (resp_status (snd (patch_recipe f idParam b)) = 200 \<longrightarrow>
            fst (patch_recipe f idParam b) =
              Content (nodes (snd (readStore f)))
                ((recipes (snd (readStore f)))
                   [nat k := \<lparr>recipe_id = recipe_id old,
                      knowledgePoints = normalizeKnowledgePoints (rb_knowledgePoints c),
                      procedure = toSafeString (rb_procedure c),
                      recipe_level = normalizeLevel (rb_level c),
                      description = toSafeString (rb_description c)\<rparr>]))
       \<and> (rb_knowledgePoints b = JUndefined \<or> rb_knowledgePoints b = JNull \<longrightarrow>
            normalizeKnowledgePoints (rb_knowledgePoints c) = knowledgePoints old)"
proof -
  have c: "c = patched_body old b" by (simp add: assms(5) patched_body_explicit)
  define ck where "ck = recipe_checks (nodes (snd (readStore f))) (normalizeRecipe c)"
  have p: "snd (patch_recipe f idParam b) =
     (case ck of Some m \<Rightarrow> Response 400 (Message m)
      | None \<Rightarrow> Response 200 (RecipeJson (recipe_with (recipe_id old) (normalizeRecipe c))))"
    unfolding ck_def c by (rule patch_recipe_snd[OF assms(1-4)])
  have pf: "fst (patch_recipe f idParam b) =
     (case ck of Some m \<Rightarrow> after_read f
      | None \<Rightarrow> Content (nodes (snd (readStore f)))
             ((recipes (snd (readStore f)))
                [nat k := recipe_with (recipe_id old) (normalizeRecipe c)]))"
    unfolding ck_def c by (rule patch_recipe_fst[OF assms(1-4)])
  have q: "snd (post_recipe f c) =
     (case ck of Some m \<Rightarrow> Response 400 (Message m)
      | None \<Rightarrow> Response 201 (RecipeJson
             (recipe_with (nextId (map recipe_id (recipes (snd (readStore f)))))
                (normalizeRecipe c))))"
    unfolding ck_def by (rule post_recipe_snd)
  have acc: "ck = None \<longleftrightarrow>
            normalizeKnowledgePoints (rb_knowledgePoints c) \<noteq> []
            \<and> toSafeString (rb_procedure c) \<noteq> []
            \<and> enum_value LEVELS (rb_level c)
            \<and> toSafeString (rb_description c) \<noteq> []
            \<and> list_all (\<lambda>j. case find (\<lambda>n. node_id n = j) (nodes (snd (readStore f))) of
                               None \<Rightarrow> False
                             | Some u \<Rightarrow> resolve_spec (node_level u) (node_category u)
                                         (normalizeLevel (rb_level c)) \<noteq> None)
                (normalizeKnowledgePoints (rb_knowledgePoints c))"
    unfolding ck_def by (rule recipe_checks_None_iff[OF readStore_parts(1,2)])
  have st: "resp_status (snd (patch_recipe f idParam b)) = 200 \<longleftrightarrow> ck = None"
    by (cases ck) (simp_all add: p)
  have k: "rb_knowledgePoints b = JUndefined \<or> rb_knowledgePoints b = JNull \<longrightarrow>
            normalizeKnowledgePoints (rb_knowledgePoints c) = knowledgePoints old"
    by (auto simp: assms(5))
  have w: "resp_status (snd (patch_recipe f idParam b)) = 200 \<longrightarrow>
            fst (patch_recipe f idParam b) =
              Content (nodes (snd (readStore f)))
                ((recipes (snd (readStore f)))
                   [nat k := \<lparr>recipe_id = recipe_id old,
                      knowledgePoints = normalizeKnowledgePoints (rb_knowledgePoints c),
                      procedure = toSafeString (rb_procedure c),
                      recipe_level = normalizeLevel (rb_level c),
                      description = toSafeString (rb_description c)\<rparr>])"
    by (cases ck) (simp_all add: st pf recipe_with_def normalizeRecipe_def)
  have m: "(snd (patch_recipe f idParam b) = Response 400 (Message m)
            \<longleftrightarrow> snd (post_recipe f c) = Response 400 (Message m))
       \<and> (resp_status (snd (patch_recipe f idParam b)) = 200
            \<longleftrightarrow> resp_status (snd (post_recipe f c)) = 201)"
    by (cases ck) (simp_all add: p q)
  from m acc[folded st] w k show ?thesis by (simp only: simp_thms)
qed

theorem update_validates_as_create_witness:
  "snd (patch_recipe
      (Content [\<lparr>node_id = 0, node_content = js ''c'', node_level = js ''single'',
                 node_category = js ''form''\<rparr>]
         [\<lparr>recipe_id = 0, knowledgePoints = [0], procedure = js ''p'',
           recipe_level = js ''single'', description = js ''d''\<rparr>])
      (js ''0'')
      \<lparr>rb_knowledgePoints = JArr [JInt 0, JInt 99], rb_procedure = JUndefined,
       rb_level = JUndefined, rb_description = JUndefined\<rparr>)
   = Response 400 (Message (js ''knowledgePoints must be existing node ids''))
   \<and> snd (patch_recipe
      (Content [\<lparr>node_id = 0, node_content = js ''c'', node_level = js ''single'',
                 node_category = js ''form''\<rparr>]
         [\<lparr>recipe_id = 0, knowledgePoints = [0], procedure = js ''p'',
           recipe_level = js ''single'', description = js ''d''\<rparr>])
      (js ''0'')
      \<lparr>rb_knowledgePoints = JUndefined, rb_procedure = JUndefined,
       rb_level = JStr (js ''timbre''), rb_description = JUndefined\<rparr>)
   = Response 400 (Message (js ''knowledgePoints not usable in level timbre: 0''))
   \<and> resp_status (snd (patch_recipe
      (Content [\<lparr>node_id = 0, node_content = js ''c'', node_level = js ''single'',
                 node_category = js ''form''\<rparr>]
         [\<lparr>recipe_id = 0, knowledgePoints = [0], procedure = js ''p'',
           recipe_level = js ''single'', description = js ''d''\<rparr>])
      (js ''0'')
      \<lparr>rb_knowledgePoints = JUndefined, rb_procedure = JUndefined,
       rb_level = JStr (js ''album''), rb_description = JUndefined\<rparr>)) = 200"
proof -
  let ?r = "\<lparr>recipe_id = 0, knowledgePoints = [0], procedure = js ''p'',
           recipe_level = js ''single'', description = js ''d''\<rparr>"
  let ?f = "Content [\<lparr>node_id = 0, node_content = js ''c'', node_level = js ''single'',
                 node_category = js ''form''\<rparr>] [?r]"
  let ?b0 = "\<lparr>rb_knowledgePoints = JArr [JInt 0, JInt 99], rb_procedure = JUndefined,
       rb_level = JUndefined, rb_description = JUndefined\<rparr>"
  let ?c0 = "\<lparr>rb_knowledgePoints = JArr [JInt 0, JInt 99], rb_procedure = JStr (js ''p''),
       rb_level = JStr (js ''single''), rb_description = JStr (js ''d'')\<rparr>"
  let ?b1 = "\<lparr>rb_knowledgePoints = JUndefined, rb_procedure = JUndefined,
       rb_level = JStr (js ''timbre''), rb_description = JUndefined\<rparr>"
  let ?c1 = "\<lparr>rb_knowledgePoints = json_of_ids [0], rb_procedure = JStr (js ''p''),
       rb_level = JStr (js ''timbre''), rb_description = JStr (js ''d'')\<rparr>"
  let ?b2 = "\<lparr>rb_knowledgePoints = JUndefined, rb_procedure = JUndefined,
       rb_level = JStr (js ''album''), rb_description = JUndefined\<rparr>"
  let ?c2 = "\<lparr>rb_knowledgePoints = json_of_ids [0], rb_procedure = JStr (js ''p''),
       rb_level = JStr (js ''album''), rb_description = JStr (js ''d'')\<rparr>"
  have p: "parseParamId (JStr (js ''0'')) = Some 0" by code_simp
  have k: "findIndex (\<lambda>r. recipe_id r = 0) (recipes (snd (readStore ?f))) = 0" by code_simp
  have nz: "(0::int) \<noteq> - 1" by simp
  have old: "?r = recipes (snd (readStore ?f)) ! nat 0" by code_simp
  have e0: "snd (post_recipe ?f ?c0)
      = Response 400 (Message (js ''knowledgePoints must be existing node ids''))"
    by code_simp
  have e1: "snd (post_recipe ?f ?c1)
      = Response 400 (Message (js ''knowledgePoints not usable in level timbre: 0''))"
    by code_simp
  have e2: "resp_status (snd (post_recipe ?f ?c2)) = 201" by code_simp
  note t = update_validates_as_create[OF p k nz old]
  have 0: "snd (patch_recipe ?f (js ''0'') ?b0)
      = Response 400 (Message (js ''knowledgePoints must be existing node ids''))"
    using t[where b = ?b0 and c = ?c0, THEN conjunct1] e0 by simp
  have 1: "snd (patch_recipe ?f (js ''0'') ?b1)
      = Response 400 (Message (js ''knowledgePoints not usable in level timbre: 0''))"
    using t[where b = ?b1 and c = ?c1, THEN conjunct1] e1 by simp
  have 2: "resp_status (snd (patch_recipe ?f (js ''0'') ?b2)) = 200"
    using t[where b = ?b2 and c = ?c2, THEN conjunct2, THEN conjunct1] e2 by simp
  from 0 1 2 show ?thesis by (simp only: simp_thms)
qed

section \<open>Malformed input\<close>

lemma patch_node_eq:
  assumes "parseParamId (JStr idParam) = Some i"
      and "findIndex (\<lambda>n. node_id n = i) (nodes (snd (readStore f))) = k"
      and "k \<noteq> -1"
      and "old = nodes (snd (readStore f)) ! nat k"
      and "nn = normalizeNode (patched_node_body old nb)"
  shows "patch_node f idParam nb =
     (if nf_content nn = [] \<or> nf_level nn = [] \<or> nf_category nn = []
      then (after_read f, Response 400 (Message node_required))
      else (Content ((nodes (snd (readStore f)))[nat k := node_with (node_id old) nn])
              (recipes (snd (readStore f))),
            Response 200 (NodeJson (node_with (node_id old) nn))))"
  using assms
  by (simp add: patch_node_def readNodeList_eq writeNodeList_eq Let_def)

lemma map_filter_filter:
  "List.map_filter g xs = map (\<lambda>x. the (g x)) (filter (\<lambda>x. g x \<noteq> None) xs)"
  by (simp add: List.map_filter_def comp_def)

lemma json_of_ids_not_null: "json_of_ids ks \<noteq> JUndefined" "json_of_ids ks \<noteq> JNull"
  by (simp_all add: json_of_ids_def)

text \<open>
  C4 (as amended). A level that is not a value of the enum is answered with status 400
  and nothing is written by the creation of a composition, by the update of a
  composition that gives a level, by the creation of a knowledge unit, by the update of
  a knowledge unit that gives a level, and by the preview; so is a category that is not
  a value of the enum by the creation of a knowledge unit and by an update that gives a
  category. The creation of a unit and the preview answer before the data file is read.
  A token of the knowledge-point list is an id exactly when it is a non-negative integer
  number or a string of decimal digits with white space before and after it or not;
  the other tokens are dropped and the remaining ids keep their order: a creation, and an
  update that gives a list, are handled exactly as the request listing only the ids
  that remain, and a creation is rejected as malformed when none remains.
\<close>

theorem malformed_input_handling:
  "(\<not> enum_value LEVELS (rb_level b) \<longrightarrow>
      post_recipe f b =
        (after_read f, Response 400
           (Message (js ''knowledgePoints[], procedure, level, description are required''))))
   \<and> (parseParamId (JStr idParam) = Some i
        \<and> findIndex (\<lambda>r. recipe_id r = i) (recipes (snd (readStore f))) \<noteq> -1
        \<and> rb_level b \<noteq> JUndefined \<and> rb_level b \<noteq> JNull
        \<and> \<not> enum_value LEVELS (rb_level b) \<longrightarrow>
      patch_recipe f idParam b =
        (after_read f, Response 400
           (Message (js ''knowledgePoints[], procedure, level, description are required''))))
   \<and> (\<not> enum_value LEVELS (nb_level nb) \<or> \<not> enum_value CATEGORY (nb_category nb) \<longrightarrow>
      post_node f nb =
        (f, Response 400 (Message (js
           ''content, level, category are required; category must be form or material''))))
   \<and> (parseParamId (JStr idParam) = Some i
        \<and> findIndex (\<lambda>n. node_id n = i) (nodes (snd (readStore f))) \<noteq> -1
        \<and> ((nb_level nb \<noteq> JUndefined \<and> nb_level nb \<noteq> JNull
              \<and> \<not> enum_value LEVELS (nb_level nb))
            \<or> (nb_category nb \<noteq> JUndefined \<and> nb_category nb \<noteq> JNull
              \<and> \<not> enum_value CATEGORY (nb_category nb))) \<longrightarrow>
      patch_node f idParam nb =
        (after_read f, Response 400 (Message (js
           ''content, level, category are required; category must be form or material''))))
   \<and> (parseParamId (JStr idParam) \<noteq> None \<and> \<not> enum_value LEVELS q \<longrightarrow>
      get_relative f idParam q =
        (f, Response 400 (Message (js
           ''query level is required and must be one of album/single/segment/phrase/timbre''))))
   \<and> (normalizeNumericId t \<noteq> None \<longleftrightarrow>
        (\<exists>n. t = JInt (int n))
        \<or> (\<exists>a ds z. t = JStr (a @ ds @ z) \<and> list_all is_space a \<and> list_all is_space z
              \<and> all_digits ds))
   \<and> normalizeKnowledgePoints (JArr ts) =
        map (\<lambda>t. the (normalizeNumericId t)) (filter (\<lambda>t. normalizeNumericId t \<noteq> None) ts)
   \<and> post_recipe f b =
        post_recipe f
          (b\<lparr>rb_knowledgePoints :=
               json_of_ids (normalizeKnowledgePoints (rb_knowledgePoints b))\<rparr>)
   \<and> (rb_knowledgePoints b \<noteq> JUndefined \<and> rb_knowledgePoints b \<noteq> JNull \<longrightarrow>
      patch_recipe f idParam b =
        patch_recipe f idParam
          (b\<lparr>rb_knowledgePoints :=
               json_of_ids (normalizeKnowledgePoints (rb_knowledgePoints b))\<rparr>))
   \<and> (normalizeKnowledgePoints (rb_knowledgePoints b) = [] \<longrightarrow>
      post_recipe f b =
        (after_read f, Response 400
           (Message (js ''knowledgePoints[], procedure, level, description are required''))))"
proof -
  have c1: "\<not> enum_value LEVELS (rb_level b) \<longrightarrow>
      post_recipe f b =
        (after_read f, Response 400
           (Message (js ''knowledgePoints[], procedure, level, description are required'')))"
  proof
    assume "\<not> enum_value LEVELS (rb_level b)"
    then have "rf_level (normalizeRecipe b) = []"
      by (simp add: enum_value_level normalizeRecipe_def)
    then have "recipe_checks (nodes (snd (readStore f))) (normalizeRecipe b)
        = Some recipe_required"
      by (intro recipe_checks_required) simp
    then show "post_recipe f b =
        (after_read f, Response 400
           (Message (js ''knowledgePoints[], procedure, level, description are required'')))"
      by (simp add: post_recipe_eq recipe_required_def)
  qed
  have c10: "normalizeKnowledgePoints (rb_knowledgePoints b) = [] \<longrightarrow>
      post_recipe f b =
        (after_read f, Response 400
           (Message (js ''knowledgePoints[], procedure, level, description are required'')))"
  proof
    assume "normalizeKnowledgePoints (rb_knowledgePoints b) = []"
    then have "recipe_checks (nodes (snd (readStore f))) (normalizeRecipe b)
        = Some recipe_required"
      by (intro recipe_checks_required) (simp add: normalizeRecipe_def)
    then show "post_recipe f b =
        (after_read f, Response 400
           (Message (js ''knowledgePoints[], procedure, level, description are required'')))"
      by (simp add: post_recipe_eq recipe_required_def)
  qed
  have c2: "parseParamId (JStr idParam) = Some i
        \<and> findIndex (\<lambda>r. recipe_id r = i) (recipes (snd (readStore f))) \<noteq> -1
        \<and> rb_level b \<noteq> JUndefined \<and> rb_level b \<noteq> JNull
        \<and> \<not> enum_value LEVELS (rb_level b) \<longrightarrow>
      patch_recipe f idParam b =
        (after_read f, Response 400
           (Message (js ''knowledgePoints[], procedure, level, description are required'')))"
  proof
    assume h: "parseParamId (JStr idParam) = Some i
        \<and> findIndex (\<lambda>r. recipe_id r = i) (recipes (snd (readStore f))) \<noteq> -1
        \<and> rb_level b \<noteq> JUndefined \<and> rb_level b \<noteq> JNull
        \<and> \<not> enum_value LEVELS (rb_level b)"
    then have p: "parseParamId (JStr idParam) = Some i"
      and k: "findIndex (\<lambda>r. recipe_id r = i) (recipes (snd (readStore f))) \<noteq> -1"
      by blast+
    let ?old = "recipes (snd (readStore f)) !
        nat (findIndex (\<lambda>r. recipe_id r = i) (recipes (snd (readStore f))))"
    from h have "rf_level (normalizeRecipe (patched_body ?old b)) = []"
      by (simp add: enum_value_level normalizeRecipe_def patched_body_def coalesce_def)
    then have "recipe_checks (nodes (snd (readStore f))) (normalizeRecipe (patched_body ?old b))
        = Some recipe_required"
      by (intro recipe_checks_required) simp
    then show "patch_recipe f idParam b =
        (after_read f, Response 400
           (Message (js ''knowledgePoints[], procedure, level, description are required'')))"
      by (simp add: patch_recipe_eq[OF p refl k refl] recipe_required_def)
  qed
  have c3: "\<not> enum_value LEVELS (nb_level nb) \<or> \<not> enum_value CATEGORY (nb_category nb) \<longrightarrow>
      post_node f nb =
        (f, Response 400 (Message (js
           ''content, level, category are required; category must be form or material'')))"
    by (auto simp: post_node_def normalizeNode_def node_required_def enum_value_level
        enum_value_category)
  have c4: "parseParamId (JStr idParam) = Some i
        \<and> findIndex (\<lambda>n. node_id n = i) (nodes (snd (readStore f))) \<noteq> -1
        \<and> ((nb_level nb \<noteq> JUndefined \<and> nb_level nb \<noteq> JNull
              \<and> \<not> enum_value LEVELS (nb_level nb))
            \<or> (nb_category nb \<noteq> JUndefined \<and> nb_category nb \<noteq> JNull
              \<and> \<not> enum_value CATEGORY (nb_category nb))) \<longrightarrow>
      patch_node f idParam nb =
        (after_read f, Response 400 (Message (js
           ''content, level, category are required; category must be form or material'')))"
  proof
    assume h: "parseParamId (JStr idParam) = Some i
        \<and> findIndex (\<lambda>n. node_id n = i) (nodes (snd (readStore f))) \<noteq> -1
        \<and> ((nb_level nb \<noteq> JUndefined \<and> nb_level nb \<noteq> JNull
              \<and> \<not> enum_value LEVELS (nb_level nb))
            \<or> (nb_category nb \<noteq> JUndefined \<and> nb_category nb \<noteq> JNull
              \<and> \<not> enum_value CATEGORY (nb_category nb)))"
    then have p: "parseParamId (JStr idParam) = Some i"
      and k: "findIndex (\<lambda>n. node_id n = i) (nodes (snd (readStore f))) \<noteq> -1"
      by blast+
    let ?old = "nodes (snd (readStore f)) !
        nat (findIndex (\<lambda>n. node_id n = i) (nodes (snd (readStore f))))"
    from h have "nf_level (normalizeNode (patched_node_body ?old nb)) = []
        \<or> nf_category (normalizeNode (patched_node_body ?old nb)) = []"
      by (auto simp: enum_value_level enum_value_category normalizeNode_def
          patched_node_body_def coalesce_def)
    then show "patch_node f idParam nb =
        (after_read f, Response 400 (Message (js
           ''content, level, category are required; category must be form or material'')))"
      by (auto simp: patch_node_eq[OF p refl k refl refl] node_required_def)
  qed
  have c5: "parseParamId (JStr idParam) \<noteq> None \<and> \<not> enum_value LEVELS q \<longrightarrow>
      get_relative f idParam q =
        (f, Response 400 (Message (js
           ''query level is required and must be one of album/single/segment/phrase/timbre'')))"
    by (auto simp: get_relative_def enum_value_level)
  have c6: "normalizeNumericId t \<noteq> None \<longleftrightarrow>
        (\<exists>n. t = JInt (int n))
        \<or> (\<exists>a ds z. t = JStr (a @ ds @ z) \<and> list_all is_space a \<and> list_all is_space z
              \<and> all_digits ds)"
    by (rule id_token_iff)
  have c7: "normalizeKnowledgePoints (JArr ts) =
        map (\<lambda>t. the (normalizeNumericId t)) (filter (\<lambda>t. normalizeNumericId t \<noteq> None) ts)"
    by (simp add: normalizeKnowledgePoints_def map_filter_filter)
  have c8: "post_recipe f b =
        post_recipe f
          (b\<lparr>rb_knowledgePoints :=
               json_of_ids (normalizeKnowledgePoints (rb_knowledgePoints b))\<rparr>)"
    by (simp only: post_recipe_eq normalizeRecipe_clean)
  have c9: "rb_knowledgePoints b \<noteq> JUndefined \<and> rb_knowledgePoints b \<noteq> JNull \<longrightarrow>
      patch_recipe f idParam b =
        patch_recipe f idParam
          (b\<lparr>rb_knowledgePoints :=
               json_of_ids (normalizeKnowledgePoints (rb_knowledgePoints b))\<rparr>)"
  proof
    assume h: "rb_knowledgePoints b \<noteq> JUndefined \<and> rb_knowledgePoints b \<noteq> JNull"
    have "normalizeRecipe (patched_body old
            (b\<lparr>rb_knowledgePoints :=
               json_of_ids (normalizeKnowledgePoints (rb_knowledgePoints b))\<rparr>))
        = normalizeRecipe (patched_body old b)" for old
      using h json_of_ids_not_null
      by (simp add: normalizeRecipe_def patched_body_def coalesce_def)
    note eq = this
    show "patch_recipe f idParam b =
        patch_recipe f idParam
          (b\<lparr>rb_knowledgePoints :=
               json_of_ids (normalizeKnowledgePoints (rb_knowledgePoints b))\<rparr>)"
    proof (cases "parseParamId (JStr idParam)")
      case None
      then show ?thesis by (simp add: patch_recipe_bad_id)
    next
      case (Some j)
      show ?thesis
      proof (cases "findIndex (\<lambda>r. recipe_id r = j) (recipes (snd (readStore f))) = -1")
        case True
        with Some show ?thesis by (simp add: patch_recipe_not_found)
      next
        case False
        show ?thesis
          by (simp only: patch_recipe_eq[OF Some refl False refl] eq)
      qed
    qed
  qed
  from c1 c2 c3 c4 c5 c6 c7 c8 c9 c10 show ?thesis by (intro conjI)
qed

theorem malformed_input_handling_witness:
  "post_recipe
     (Content [\<lparr>node_id = 0, node_content = js ''c'', node_level = js ''single'',
                node_category = js ''form''\<rparr>]
        [\<lparr>recipe_id = 0, knowledgePoints = [0], procedure = js ''p'',
          recipe_level = js ''single'', description = js ''d''\<rparr>])
     \<lparr>rb_knowledgePoints = JArr [JInt 0], rb_procedure = JStr (js ''p''),
      rb_level = JStr (js ''chorus''), rb_description = JStr (js ''d'')\<rparr>
   = (Content [\<lparr>node_id = 0, node_content = js ''c'', node_level = js ''single'',
                node_category = js ''form''\<rparr>]
        [\<lparr>recipe_id = 0, knowledgePoints = [0], procedure = js ''p'',
          recipe_level = js ''single'', description = js ''d''\<rparr>],
      Response 400
        (Message (js ''knowledgePoints[], procedure, level, description are required'')))
   \<and> patch_recipe
     (Content [\<lparr>node_id = 0, node_content = js ''c'', node_level = js ''single'',
                node_category = js ''form''\<rparr>]
        [\<lparr>recipe_id = 0, knowledgePoints = [0], procedure = js ''p'',
          recipe_level = js ''single'', description = js ''d''\<rparr>])
     (js ''0'')
     \<lparr>rb_knowledgePoints = JArr [JInt 0], rb_procedure = JStr (js ''p''),
      rb_level = JStr (js ''chorus''), rb_description = JStr (js ''d'')\<rparr>
   = (Content [\<lparr>node_id = 0, node_content = js ''c'', node_level = js ''single'',
                node_category = js ''form''\<rparr>]
        [\<lparr>recipe_id = 0, knowledgePoints = [0], procedure = js ''p'',
          recipe_level = js ''single'', description = js ''d''\<rparr>],
      Response 400
        (Message (js ''knowledgePoints[], procedure, level, description are required'')))
   \<and> post_node Absent
       \<lparr>nb_content = JStr (js ''c''), nb_level = JStr (js ''single''),
        nb_category = JStr (js ''rule'')\<rparr>
     = (Absent, Response 400 (Message (js
         ''content, level, category are required; category must be form or material'')))
   \<and> patch_node
     (Content [\<lparr>node_id = 0, node_content = js ''c'', node_level = js ''single'',
                node_category = js ''form''\<rparr>]
        [\<lparr>recipe_id = 0, knowledgePoints = [0], procedure = js ''p'',
          recipe_level = js ''single'', description = js ''d''\<rparr>])
     (js ''0'')
     \<lparr>nb_content = JUndefined, nb_level = JStr (js ''chorus''), nb_category = JUndefined\<rparr>
     = (Content [\<lparr>node_id = 0, node_content = js ''c'', node_level = js ''single'',
                node_category = js ''form''\<rparr>]
        [\<lparr>recipe_id = 0, knowledgePoints = [0], procedure = js ''p'',
          recipe_level = js ''single'', description = js ''d''\<rparr>],
        Response 400 (Message (js
         ''content, level, category are required; category must be form or material'')))
   \<and> get_relative Absent (js ''3'') (JStr (js ''chorus''))
     = (Absent, Response 400 (Message (js
         ''query level is required and must be one of album/single/segment/phrase/timbre'')))"
proof -
  let ?f = "Content [\<lparr>node_id = 0, node_content = js ''c'', node_level = js ''single'',
                node_category = js ''form''\<rparr>]
        [\<lparr>recipe_id = 0, knowledgePoints = [0], procedure = js ''p'',
          recipe_level = js ''single'', description = js ''d''\<rparr>]"
  let ?b = "\<lparr>rb_knowledgePoints = JArr [JInt 0], rb_procedure = JStr (js ''p''),
      rb_level = JStr (js ''chorus''), rb_description = JStr (js ''d'')\<rparr>"
  let ?nb = "\<lparr>nb_content = JStr (js ''c''), nb_level = JStr (js ''single''),
        nb_category = JStr (js ''rule'')\<rparr>"
  let ?pb = "\<lparr>nb_content = JUndefined, nb_level = JStr (js ''chorus''),
        nb_category = JUndefined\<rparr>"
  have n: "normalizeLevel (JStr (js ''chorus'')) = []"
    "normalizeCategory (JStr (js ''rule'')) = []" by code_simp+
  have e: "\<not> enum_value LEVELS (JStr (js ''chorus''))"
    "\<not> enum_value CATEGORY (JStr (js ''rule''))"
    by (simp_all add: enum_value_level enum_value_category n)
  have p: "parseParamId (JStr (js ''0'')) = Some 0" "parseParamId (JStr (js ''3'')) \<noteq> None"
    by code_simp+
  have k: "findIndex (\<lambda>r. recipe_id r = 0) (recipes (snd (readStore ?f))) \<noteq> - 1"
    "findIndex (\<lambda>n. node_id n = 0) (nodes (snd (readStore ?f))) \<noteq> - 1"
    by code_simp+
  have a: "after_read ?f = ?f" by (simp add: after_read_def)
  note t = malformed_input_handling[where b = ?b and f = ?f and idParam = "js ''0''"
      and i = 0 and nb = ?pb]
  note u = malformed_input_handling[where nb = ?nb and f = Absent and idParam = "js ''3''"
      and q = "JStr (js ''chorus'')"]
  have 1: "post_recipe ?f ?b = (?f, Response 400
        (Message (js ''knowledgePoints[], procedure, level, description are required'')))"
    using t[THEN conjunct1] e a by simp
  have 2: "patch_recipe ?f (js ''0'') ?b = (?f, Response 400
        (Message (js ''knowledgePoints[], procedure, level, description are required'')))"
    using t[THEN conjunct2, THEN conjunct1] e a p k by simp
  have 3: "post_node Absent ?nb = (Absent, Response 400 (Message (js
         ''content, level, category are required; category must be form or material'')))"
    using u[THEN conjunct2, THEN conjunct2, THEN conjunct1] e by simp
  have 4: "patch_node ?f (js ''0'') ?pb = (?f, Response 400 (Message (js
         ''content, level, category are required; category must be form or material'')))"
    using t[THEN conjunct2, THEN conjunct2, THEN conjunct2, THEN conjunct1] e a p k by simp
  have 5: "get_relative Absent (js ''3'') (JStr (js ''chorus''))
     = (Absent, Response 400 (Message (js
         ''query level is required and must be one of album/single/segment/phrase/timbre'')))"
    using u[THEN conjunct2, THEN conjunct2, THEN conjunct2, THEN conjunct2, THEN conjunct1] e p
    by simp
  from 1 2 3 4 5 show ?thesis by (intro conjI)
qed

text \<open>
  The claim as stated fails: a list with three malformed tokens is accepted and the
  composition is stored with the one well-formed id.
\<close>

theorem malformed_ids_are_dropped:
  "post_recipe
     (Content [\<lparr>node_id = 0, node_content = js ''c'', node_level = js ''single'',
                node_category = js ''form''\<rparr>] [])
     \<lparr>rb_knowledgePoints = JArr [JInt 0, JStr (js ''abc''), JInt (- 1), JNonInt],
      rb_procedure = JStr (js ''p''), rb_level = JStr (js ''single''),
      rb_description = JStr (js ''d'')\<rparr>
   = (Content [\<lparr>node_id = 0, node_content = js ''c'', node_level = js ''single'',
                node_category = js ''form''\<rparr>]
        [\<lparr>recipe_id = 0, knowledgePoints = [0], procedure = js ''p'',
          recipe_level = js ''single'', description = js ''d''\<rparr>],
      Response 201 (RecipeJson
        \<lparr>recipe_id = 0, knowledgePoints = [0], procedure = js ''p'',
          recipe_level = js ''single'', description = js ''d''\<rparr>))"
  by code_simp

end
